theory Spec2Isabelle
  imports Main "HOL-Library.Word"
begin

section \<open>JavaScript strings\<close>

text \<open>
  A JavaScript string is a sequence of 16-bit code units, and \<open>length\<close> counts code
  units. String literals of the script are written \<open>js ''...''\<close>.
\<close>

type_synonym jschar = "16 word"
type_synonym jsstring = "jschar list"

definition js :: "string \<Rightarrow> jsstring" where
  "js s = map of_char s"

text \<open>
  \<open>String.prototype.trim\<close> removes the code units of WhiteSpace and LineTerminator
  from both ends.
\<close>

definition is_space :: "jschar \<Rightarrow> bool" where
  "is_space c \<longleftrightarrow>
     c = 0x09 \<or> c = 0x0A \<or> c = 0x0B \<or> c = 0x0C \<or> c = 0x0D \<or> c = 0x20 \<or> c = 0xA0 \<or>
     c = 0x1680 \<or> (0x2000 \<le> c \<and> c \<le> 0x200A) \<or> c = 0x2028 \<or> c = 0x2029 \<or>
     c = 0x202F \<or> c = 0x205F \<or> c = 0x3000 \<or> c = 0xFEFF"

definition trim :: "jsstring \<Rightarrow> jsstring" where
  "trim s = rev (dropWhile is_space (rev (dropWhile is_space s)))"

section \<open>The platform's JSON functions\<close>

text \<open>
  \<open>JSON.parse\<close> and \<open>JSON.stringify\<close> belong to the JavaScript runtime, not to the
  script. They are modelled here on the JSON grammar (ECMA-404) and on
  \<open>QuoteJSONString\<close> of ECMA-262. A number keeps the text of its literal: the
  conversion to a double and back is not modelled, so the text of a number is exact only
  for a literal in canonical form.
\<close>

datatype jsv =
    JNull
  | JBool bool
  | JNum jsstring
  | JStr jsstring
  | JArr "jsv list"
  | JObj "(jsstring \<times> jsv) list"

subsection \<open>JSON.stringify\<close>

definition hexdigit :: "nat \<Rightarrow> jschar" where
  "hexdigit n = (if n < 10 then 0x30 + of_nat n else 0x61 + of_nat (n - 10))"

definition unicode_escape :: "jschar \<Rightarrow> jsstring" where
  "unicode_escape c =
     (let n = unat c
      in [0x5C, 0x75, hexdigit (n div 4096 mod 16), hexdigit (n div 256 mod 16),
          hexdigit (n div 16 mod 16), hexdigit (n mod 16)])"

definition is_lead :: "jschar \<Rightarrow> bool" where
  "is_lead c \<longleftrightarrow> 0xD800 \<le> c \<and> c \<le> 0xDBFF"

definition is_trail :: "jschar \<Rightarrow> bool" where
  "is_trail c \<longleftrightarrow> 0xDC00 \<le> c \<and> c \<le> 0xDFFF"

definition quote_unit :: "jschar \<Rightarrow> jsstring" where
  "quote_unit c =
     (if c = 0x08 then [0x5C, 0x62]
      else if c = 0x09 then [0x5C, 0x74]
      else if c = 0x0A then [0x5C, 0x6E]
      else if c = 0x0C then [0x5C, 0x66]
      else if c = 0x0D then [0x5C, 0x72]
      else if c = 0x22 then [0x5C, 0x22]
      else if c = 0x5C then [0x5C, 0x5C]
      else if c < 0x20 \<or> is_lead c \<or> is_trail c then unicode_escape c
      else [c])"

text \<open>A surrogate pair is copied; a surrogate on its own is escaped.\<close>

fun quote_chars :: "jsstring \<Rightarrow> jsstring" where
  "quote_chars [] = []"
| "quote_chars [c] = quote_unit c"
| "quote_chars (c # d # cs) =
     (if is_lead c \<and> is_trail d then c # d # quote_chars cs
      else quote_unit c @ quote_chars (d # cs))"

definition QuoteJSONString :: "jsstring \<Rightarrow> jsstring" where
  "QuoteJSONString s = 0x22 # quote_chars s @ [0x22]"

fun join :: "jsstring \<Rightarrow> jsstring list \<Rightarrow> jsstring" where
  "join sep [] = []"
| "join sep [x] = x"
| "join sep (x # y # ys) = x @ sep @ join sep (y # ys)"

fun stringify_value :: "jsv \<Rightarrow> jsstring" where
  "stringify_value JNull = js ''null''"
| "stringify_value (JBool b) = (if b then js ''true'' else js ''false'')"
| "stringify_value (JNum lit) = lit"
| "stringify_value (JStr s) = QuoteJSONString s"
| "stringify_value (JArr vs) = 0x5B # join [0x2C] (map stringify_value vs) @ [0x5D]"
| "stringify_value (JObj kvs) =
     0x7B # join [0x2C] (map (\<lambda>(k, v). QuoteJSONString k @ 0x3A # stringify_value v) kvs) @ [0x7D]"

subsection \<open>JSON.parse\<close>

definition is_json_ws :: "jschar \<Rightarrow> bool" where
  "is_json_ws c \<longleftrightarrow> c = 0x20 \<or> c = 0x09 \<or> c = 0x0A \<or> c = 0x0D"

definition skip_ws :: "jsstring \<Rightarrow> jsstring" where
  "skip_ws cs = dropWhile is_json_ws cs"

definition hexval :: "jschar \<Rightarrow> nat option" where
  "hexval c =
     (if 0x30 \<le> c \<and> c \<le> 0x39 then Some (unat c - 0x30)
      else if 0x61 \<le> c \<and> c \<le> 0x66 then Some (unat c - 0x61 + 10)
      else if 0x41 \<le> c \<and> c \<le> 0x46 then Some (unat c - 0x41 + 10)
      else None)"

definition unhex4 :: "jschar \<Rightarrow> jschar \<Rightarrow> jschar \<Rightarrow> jschar \<Rightarrow> jschar option" where
  "unhex4 h1 h2 h3 h4 =
     (case (hexval h1, hexval h2, hexval h3, hexval h4) of
        (Some a, Some b, Some c, Some d) \<Rightarrow> Some (of_nat (a * 4096 + b * 256 + c * 16 + d))
      | _ \<Rightarrow> None)"

definition unescape :: "jschar \<Rightarrow> jschar option" where
  "unescape e =
     (if e = 0x22 then Some 0x22
      else if e = 0x5C then Some 0x5C
      else if e = 0x2F then Some 0x2F
      else if e = 0x62 then Some 0x08
      else if e = 0x66 then Some 0x0C
      else if e = 0x6E then Some 0x0A
      else if e = 0x72 then Some 0x0D
      else if e = 0x74 then Some 0x09
      else None)"

definition cons_result :: "'a \<Rightarrow> ('a list \<times> 'b) option \<Rightarrow> ('a list \<times> 'b) option" where
  "cons_result x r = (case r of None \<Rightarrow> None | Some (xs, rest) \<Rightarrow> Some (x # xs, rest))"

text \<open>The characters of a string literal, after its opening quote, up to the closing one.\<close>

fun scan_string :: "jsstring \<Rightarrow> (jsstring \<times> jsstring) option" where
  "scan_string [] = None"
| "scan_string (c # cs) =
     (if c = 0x22 then Some ([], cs)
      else if c = 0x5C then
        (case cs of
           [] \<Rightarrow> None
         | e # es \<Rightarrow>
             if e = 0x75 then
               (case es of
                  h1 # h2 # h3 # h4 # rest \<Rightarrow>
                    (case unhex4 h1 h2 h3 h4 of
                       None \<Rightarrow> None
                     | Some u \<Rightarrow> cons_result u (scan_string rest))
                | _ \<Rightarrow> None)
             else
               (case unescape e of
                  None \<Rightarrow> None
                | Some u \<Rightarrow> cons_result u (scan_string es)))
      else if c < 0x20 then None
      else cons_result c (scan_string cs))"

definition is_digit :: "jschar \<Rightarrow> bool" where
  "is_digit c \<longleftrightarrow> 0x30 \<le> c \<and> c \<le> 0x39"

text \<open>
  A number literal: an optional minus, an integer part without a leading zero, an
  optional fraction and an optional exponent. The result is the literal and the rest.
\<close>

definition scan_fraction :: "jsstring \<Rightarrow> (jsstring \<times> jsstring) option" where
  "scan_fraction cs =
     (case cs of
        [] \<Rightarrow> Some ([], cs)
      | c # r \<Rightarrow>
          if c = 0x2E then
            (if takeWhile is_digit r = [] then None
             else Some (c # takeWhile is_digit r, dropWhile is_digit r))
          else Some ([], cs))"

definition scan_exponent :: "jsstring \<Rightarrow> (jsstring \<times> jsstring) option" where
  "scan_exponent cs =
     (case cs of
        [] \<Rightarrow> Some ([], cs)
      | c # r \<Rightarrow>
          if c = 0x65 \<or> c = 0x45 then
            (let (sg, r') =
                   (case r of
                      [] \<Rightarrow> ([], r)
                    | d # r'' \<Rightarrow> if d = 0x2B \<or> d = 0x2D then ([d], r'') else ([], r))
             in if takeWhile is_digit r' = [] then None
                else Some (c # sg @ takeWhile is_digit r', dropWhile is_digit r'))
          else Some ([], cs))"

definition scan_number :: "jsstring \<Rightarrow> (jsstring \<times> jsstring) option" where
  "scan_number cs =
     (let (sign, r0) =
            (case cs of
               [] \<Rightarrow> ([], cs)
             | c # r \<Rightarrow> if c = 0x2D then ([c], r) else ([], cs))
      in case takeWhile is_digit r0 of
           [] \<Rightarrow> None
         | d # ds \<Rightarrow>
             if d = 0x30 \<and> ds \<noteq> [] then None
             else
               (case scan_fraction (dropWhile is_digit r0) of
                  None \<Rightarrow> None
                | Some (frac, r2) \<Rightarrow>
                    (case scan_exponent r2 of
                       None \<Rightarrow> None
                     | Some (ex, r3) \<Rightarrow> Some (sign @ d # ds @ frac @ ex, r3))))"

fun strip_prefix :: "'a list \<Rightarrow> 'a list \<Rightarrow> 'a list option" where
  "strip_prefix [] ys = Some ys"
| "strip_prefix (x # xs) [] = None"
| "strip_prefix (x # xs) (y # ys) = (if x = y then strip_prefix xs ys else None)"

text \<open>
  The recursive descent takes fuel, which bounds the depth of nesting and the number of
  elements of an array or object; \<open>JSON_parse\<close> gives it more than the length of the
  text, and each level and each element consume at least one character.
\<close>

fun parse_value :: "nat \<Rightarrow> jsstring \<Rightarrow> (jsv \<times> jsstring) option"
  and parse_elements :: "nat \<Rightarrow> jsstring \<Rightarrow> (jsv list \<times> jsstring) option"
  and parse_members :: "nat \<Rightarrow> jsstring \<Rightarrow> ((jsstring \<times> jsv) list \<times> jsstring) option"
where
  "parse_value 0 cs = None"
| "parse_value (Suc n) cs =
     (case skip_ws cs of
        [] \<Rightarrow> None
      | c # r \<Rightarrow>
          if c = 0x22 then
            (case scan_string r of None \<Rightarrow> None | Some (s, r') \<Rightarrow> Some (JStr s, r'))
          else if c = 0x5B then
            (case skip_ws r of
               [] \<Rightarrow> None
             | d # r' \<Rightarrow>
                 if d = 0x5D then Some (JArr [], r')
                 else (case parse_elements n r of
                         None \<Rightarrow> None
                       | Some (vs, r'') \<Rightarrow> Some (JArr vs, r'')))
          else if c = 0x7B then
            (case skip_ws r of
               [] \<Rightarrow> None
             | d # r' \<Rightarrow>
                 if d = 0x7D then Some (JObj [], r')
                 else (case parse_members n r of
                         None \<Rightarrow> None
                       | Some (kvs, r'') \<Rightarrow> Some (JObj kvs, r'')))
          else
            (case strip_prefix (js ''true'') (c # r) of
               Some r' \<Rightarrow> Some (JBool True, r')
             | None \<Rightarrow>
                 (case strip_prefix (js ''false'') (c # r) of
                    Some r' \<Rightarrow> Some (JBool False, r')
                  | None \<Rightarrow>
                      (case strip_prefix (js ''null'') (c # r) of
                         Some r' \<Rightarrow> Some (JNull, r')
                       | None \<Rightarrow>
                           (case scan_number (c # r) of
                              None \<Rightarrow> None
                            | Some (lit, r') \<Rightarrow> Some (JNum lit, r'))))))"
| "parse_elements 0 cs = None"
| "parse_elements (Suc n) cs =
     (case parse_value n cs of
        None \<Rightarrow> None
      | Some (v, r) \<Rightarrow>
          (case skip_ws r of
             [] \<Rightarrow> None
           | c # r' \<Rightarrow>
               if c = 0x2C then cons_result v (parse_elements n r')
               else if c = 0x5D then Some ([v], r')
               else None))"
| "parse_members 0 cs = None"
| "parse_members (Suc n) cs =
     (case skip_ws cs of
        [] \<Rightarrow> None
      | q # r \<Rightarrow>
          if q = 0x22 then
            (case scan_string r of
               None \<Rightarrow> None
             | Some (k, r1) \<Rightarrow>
                 (case skip_ws r1 of
                    [] \<Rightarrow> None
                  | colon # r2 \<Rightarrow>
                      if colon = 0x3A then
                        (case parse_value n r2 of
                           None \<Rightarrow> None
                         | Some (v, r3) \<Rightarrow>
                             (case skip_ws r3 of
                                [] \<Rightarrow> None
                              | c # r4 \<Rightarrow>
                                  if c = 0x2C then cons_result (k, v) (parse_members n r4)
                                  else if c = 0x7D then Some ([(k, v)], r4)
                                  else None))
                      else None))
          else None)"

text \<open>\<open>None\<close> is the \<open>SyntaxError\<close> that \<open>JSON.parse\<close> throws.\<close>

definition JSON_parse :: "jsstring \<Rightarrow> jsv option" where
  "JSON_parse text =
     (case parse_value (Suc (length text)) text of
        None \<Rightarrow> None
      | Some (v, r) \<Rightarrow> if skip_ws r = [] then Some v else None)"

text \<open>
  \<open>JSON.stringify\<close> of an array writes \<open>null\<close> for a hole. An array of the heap is a
  list of slots, \<open>None\<close> being a hole.
\<close>

definition slot_value :: "jsv option \<Rightarrow> jsv" where
  "slot_value x = (case x of None \<Rightarrow> JNull | Some v \<Rightarrow> v)"

definition stringify_array :: "jsv option list \<Rightarrow> jsstring" where
  "stringify_array xs = stringify_value (JArr (map slot_value xs))"

section \<open>Values, truthiness and text\<close>

fun num_is_zero :: "jsstring \<Rightarrow> bool" where
  "num_is_zero lit =
     list_all (\<lambda>c. is_digit c \<longrightarrow> c = 0x30) (takeWhile (\<lambda>c. c \<noteq> 0x65 \<and> c \<noteq> 0x45) lit)"

fun is_truthy :: "jsv \<Rightarrow> bool" where
  "is_truthy JNull = False"
| "is_truthy (JBool b) = b"
| "is_truthy (JNum lit) = (\<not> num_is_zero lit)"
| "is_truthy (JStr s) = (s \<noteq> [])"
| "is_truthy (JArr vs) = True"
| "is_truthy (JObj kvs) = True"

text \<open>
  The text that \<open>el.textContent = item\<close> gives the element: \<open>null\<close> gives the empty
  text, an array the texts of its elements joined by commas.
\<close>

fun text_of :: "jsv \<Rightarrow> jsstring" where
  "text_of JNull = []"
| "text_of (JBool b) = (if b then js ''true'' else js ''false'')"
| "text_of (JNum lit) = lit"
| "text_of (JStr s) = s"
| "text_of (JArr vs) = join [0x2C] (map text_of vs)"
| "text_of (JObj kvs) = js ''[object Object]''"

section \<open>The state of the page\<close>

text \<open>
  An error that no \<open>catch\<close> takes ends the handler that raised it. A handler returns
  the error in place of the state: the page is not followed after an uncaught error.
\<close>

datatype error = TypeError | StorageError

text \<open>
  \<open>localStorage\<close>: the stored items, and whether reading or writing throws (storage
  disabled, quota exceeded).
\<close>

record storage =
  items :: "string \<Rightarrow> jsstring option"
  read_fails :: bool
  write_fails :: bool

definition getItem :: "storage \<Rightarrow> string \<Rightarrow> error + jsstring option" where
  "getItem st k = (if read_fails st then Inl StorageError else Inr (items st k))"

definition setItem :: "storage \<Rightarrow> string \<Rightarrow> jsstring \<Rightarrow> error + storage" where
  "setItem st k v =
     (if write_fails st then Inl StorageError else Inr (st\<lparr>items := (items st)(k \<mapsto> v)\<rparr>))"

text \<open>
  The value of one of the four array variables: a reference to an array of the heap, or
  a value that is not an array (\<open>JSON.parse\<close> may return any JSON value). Arrays are
  on a heap because \<open>listArrays\<close> shares them with the four variables.
\<close>

datatype jsvalue = Arr nat | NotArr jsv

text \<open>The four \<open>ul\<close> elements of the page, and the \<open>li\<close> elements the script creates.\<close>

datatype node = BacklogList | ProgressList | CompleteList | OnHoldList

record element =
  textContent :: jsstring
  el_id :: nat
  el_onfocusout :: "nat \<times> nat"

text \<open>
  The state: the storage, the variables of the script, the heap of arrays with its next
  free address, the children of the four lists, the elements created so far with the next
  free one, the texts of the four add boxes, and the messages shown by \<open>alert\<close>. The
  messages that the script writes to the console are not part of the state.
\<close>

record state =
  localStorage :: storage
  updatedOnLoad :: bool
  backlogListArray :: jsvalue
  progressListArray :: jsvalue
  completeListArray :: jsvalue
  onHoldListArray :: jsvalue
  listArrays :: "jsvalue list"
  draggedItem :: "nat option"
  currentColumn :: "nat option"
  heap :: "nat \<Rightarrow> jsv option list"
  nextArr :: nat
  children :: "node \<Rightarrow> nat list"
  elements :: "nat \<Rightarrow> element"
  nextEl :: nat
  addItems :: "jsstring list"
  alerts :: "jsstring list"

text \<open>
  Modelled from the spec: the HTML document is not among the sources. The four lists are
  the columns 0 to 3 in the order Backlog, Progress, Complete, On Hold, and each of the
  four add containers holds one \<open>.add-item\<close> box, whose text is \<open>addItems s ! column\<close>.
\<close>

definition listColumns :: "node list" where
  "listColumns = [BacklogList, ProgressList, CompleteList, OnHoldList]"

definition MAX_CHARS :: nat where
  "MAX_CHARS = 100"

definition nth_opt :: "'a list \<Rightarrow> nat \<Rightarrow> 'a option" where
  "nth_opt xs i = (if i < length xs then Some (xs ! i) else None)"

definition new_array :: "jsv option list \<Rightarrow> state \<Rightarrow> nat \<times> state" where
  "new_array xs s =
     (nextArr s, s\<lparr>heap := (heap s)(nextArr s := xs), nextArr := Suc (nextArr s)\<rparr>)"

definition then_do :: "error + 'a \<Rightarrow> ('a \<Rightarrow> error + 'b) \<Rightarrow> error + 'b" where
  "then_do r f = (case r of Inl e \<Rightarrow> Inl e | Inr x \<Rightarrow> f x)"

section \<open>Loading and saving\<close>

text \<open>\<open>JSON.parse(undefined)\<close> parses the text \<open>undefined\<close>.\<close>

definition safeJSONParse :: "jsstring option \<Rightarrow> jsv" where
  "safeJSONParse data =
     (case JSON_parse (case data of None \<Rightarrow> js ''undefined'' | Some t \<Rightarrow> t) of
        None \<Rightarrow> JNull
      | Some v \<Rightarrow> v)"

text \<open>\<open>safeJSONParse(...) || []\<close>, the parsed array being a new array of the heap.\<close>

definition or_empty :: "jsv \<Rightarrow> state \<Rightarrow> jsvalue \<times> state" where
  "or_empty v s =
     (if is_truthy v then
        (case v of
           JArr xs \<Rightarrow> (let (a, s') = new_array (map Some xs) s in (Arr a, s'))
         | _ \<Rightarrow> (NotArr v, s))
      else (let (a, s') = new_array [] s in (Arr a, s')))"

definition array_literal :: "jsstring list \<Rightarrow> state \<Rightarrow> jsvalue \<times> state" where
  "array_literal xs s = (let (a, s') = new_array (map (\<lambda>x. Some (JStr x)) xs) s in (Arr a, s'))"

definition default_columns :: "state \<Rightarrow> state" where
  "default_columns s =
     (let (b, s1) = array_literal [js ''Release the course'', js ''Sit back and relax''] s;
          s1 = s1\<lparr>backlogListArray := b\<rparr>;
          (p, s2) = array_literal [js ''Work on projects'', js ''Listen to music''] s1;
          s2 = s2\<lparr>progressListArray := p\<rparr>;
          (c, s3) = array_literal [js ''Being cool'', js ''Getting stuff done''] s2;
          s3 = s3\<lparr>completeListArray := c\<rparr>;
          (h, s4) = array_literal [js ''Being uncool''] s3
      in s4\<lparr>onHoldListArray := h\<rparr>)"

text \<open>
  \<open>getSavedColumns\<close>: the \<open>catch\<close> of a failing storage assigns the same defaults as
  the \<open>else\<close> branch. \<open>if (localStorage.getItem(...))\<close> takes the \<open>else\<close> branch for an
  absent item and for the empty text.
\<close>

definition getSavedColumns :: "state \<Rightarrow> state" where
  "getSavedColumns s =
     (case getItem (localStorage s) ''backlogItems'' of
        Inl e \<Rightarrow> default_columns s
      | Inr found \<Rightarrow>
          if found \<noteq> None \<and> found \<noteq> Some [] then
            (let st = localStorage s;
                 (b, s1) = or_empty (safeJSONParse (items st ''backlogItems'')) s;
                 s1 = s1\<lparr>backlogListArray := b\<rparr>;
                 (p, s2) = or_empty (safeJSONParse (items st ''progressItems'')) s1;
                 s2 = s2\<lparr>progressListArray := p\<rparr>;
                 (c, s3) = or_empty (safeJSONParse (items st ''completeItems'')) s2;
                 s3 = s3\<lparr>completeListArray := c\<rparr>;
                 (h, s4) = or_empty (safeJSONParse (items st ''onHoldItems'')) s3
             in s4\<lparr>onHoldListArray := h\<rparr>)
          else default_columns s)"

definition JSON_stringify :: "state \<Rightarrow> jsvalue \<Rightarrow> jsstring" where
  "JSON_stringify s v =
     (case v of Arr a \<Rightarrow> stringify_array (heap s a) | NotArr x \<Rightarrow> stringify_value x)"

text \<open>
  The \<open>forEach\<close> of \<open>updateSavedColumns\<close>. A \<open>setItem\<close> that throws ends the loop, and
  the \<open>catch\<close> of \<open>updateSavedColumns\<close> continues with the state reached.
\<close>

fun save_each :: "(string \<times> nat) list \<Rightarrow> state \<Rightarrow> state" where
  "save_each [] s = s"
| "save_each ((name, index) # rest) s =
     (case setItem (localStorage s) (name @ ''Items'') (JSON_stringify s (listArrays s ! index)) of
        Inl e \<Rightarrow> s
      | Inr st \<Rightarrow> save_each rest (s\<lparr>localStorage := st\<rparr>))"

definition updateSavedColumns :: "state \<Rightarrow> state" where
  "updateSavedColumns s =
     (let s1 = s\<lparr>listArrays :=
                  [backlogListArray s, progressListArray s, completeListArray s, onHoldListArray s]\<rparr>;
          arrayNames = [''backlog'', ''progress'', ''complete'', ''onHold'']
      in save_each (zip arrayNames [0 ..< length arrayNames]) s1)"

section \<open>Rendering\<close>

text \<open>\<open>array.filter(item => item !== null)\<close>: a new array, without the holes of the old one.\<close>

definition filterArray :: "jsvalue \<Rightarrow> state \<Rightarrow> error + jsvalue \<times> state" where
  "filterArray array s =
     (case array of
        NotArr v \<Rightarrow> Inl TypeError
      | Arr a \<Rightarrow>
          (let (b, s') = new_array (filter (\<lambda>x. x \<noteq> None \<and> x \<noteq> Some JNull) (heap s a)) s
           in Inr (Arr b, s')))"

definition alert :: "jsstring \<Rightarrow> state \<Rightarrow> state" where
  "alert msg s = s\<lparr>alerts := alerts s @ [msg]\<rparr>"

definition validateItemText :: "jsstring \<Rightarrow> state \<Rightarrow> bool \<times> state" where
  "validateItemText text s =
     (if length text > MAX_CHARS then
        (False, alert (js ''Task text cannot exceed 100 characters'') s)
      else if length (trim text) = 0 then (False, s)
      else (True, s))"

text \<open>
  \<open>createItemEl\<close>: the new element with its text, its \<open>id\<close> and the arguments of its
  \<open>onfocusout\<close> attribute. The listeners that cut the text at \<open>MAX_CHARS\<close> while the
  user types and that mark the dragged element, and the classes and styles that the
  handlers set, are left out: they change no array and no stored item.
\<close>

definition createItemEl :: "node \<Rightarrow> nat \<Rightarrow> jsv \<Rightarrow> nat \<Rightarrow> state \<Rightarrow> state" where
  "createItemEl columnEl column item index s =
     (let listEl = nextEl s
      in s\<lparr>elements := (elements s)(listEl :=
              \<lparr>textContent = text_of item, el_id = index, el_onfocusout = (index, column)\<rparr>),
            nextEl := Suc listEl,
            children := (children s)(columnEl := children s columnEl @ [listEl])\<rparr>)"

text \<open>\<open>array.forEach((item, index) => ...)\<close> does not visit a hole.\<close>

fun forEach :: "(jsv \<Rightarrow> nat \<Rightarrow> state \<Rightarrow> state) \<Rightarrow> nat \<Rightarrow> jsv option list \<Rightarrow> state \<Rightarrow> state" where
  "forEach f index [] s = s"
| "forEach f index (None # xs) s = forEach f (Suc index) xs s"
| "forEach f index (Some item # xs) s = forEach f (Suc index) xs (f item index s)"

text \<open>
  One of the four blocks of \<open>updateDOM\<close>: \<open>list.textContent = ""\<close> removes the
  children, then \<open>array.forEach\<close> creates the new ones. \<open>forEach\<close> of a value that is
  not an array is not a function.
\<close>

definition render_column :: "node \<Rightarrow> nat \<Rightarrow> jsvalue \<Rightarrow> state \<Rightarrow> error + state" where
  "render_column columnEl column array s =
     (let s1 = s\<lparr>children := (children s)(columnEl := [])\<rparr>
      in case array of
           NotArr v \<Rightarrow> Inl TypeError
         | Arr a \<Rightarrow> Inr (forEach (createItemEl columnEl column) 0 (heap s1 a) s1))"

definition updateDOM :: "state \<Rightarrow> error + state" where
  "updateDOM s =
     (let s0 = (if \<not> updatedOnLoad s then getSavedColumns s else s)
      in then_do (render_column BacklogList 0 (backlogListArray s0) s0) (\<lambda>s1.
         then_do (render_column ProgressList 1 (progressListArray s1) s1) (\<lambda>s2.
         then_do (render_column CompleteList 2 (completeListArray s2) s2) (\<lambda>s3.
         then_do (render_column OnHoldList 3 (onHoldListArray s3) s3) (\<lambda>s4.
         then_do (filterArray (backlogListArray s4) s4) (\<lambda>(b, s5).
         then_do (filterArray (progressListArray s5) (s5\<lparr>backlogListArray := b\<rparr>)) (\<lambda>(p, s6).
         then_do (filterArray (completeListArray s6) (s6\<lparr>progressListArray := p\<rparr>)) (\<lambda>(c, s7).
         then_do (filterArray (onHoldListArray s7) (s7\<lparr>completeListArray := c\<rparr>)) (\<lambda>(h, s8).
         Inr (updateSavedColumns (s8\<lparr>onHoldListArray := h, updatedOnLoad := True\<rparr>)))))))))))"

section \<open>Editing, adding and dragging\<close>

text \<open>\<open>delete array[index]\<close> leaves a hole; \<open>array[index] = v\<close> past the end extends the array.\<close>

definition delete_slot :: "'a option list \<Rightarrow> nat \<Rightarrow> 'a option list" where
  "delete_slot xs i = (if i < length xs then xs[i := None] else xs)"

definition set_slot :: "'a option list \<Rightarrow> nat \<Rightarrow> 'a \<Rightarrow> 'a option list" where
  "set_slot xs i v =
     (if i < length xs then xs[i := Some v]
      else xs @ replicate (i - length xs) None @ [Some v])"

text \<open>
  \<open>updateItem\<close>. \<open>undefined === undefined\<close> holds, so with no element at the index and
  nothing dragged yet the function returns. A property of a value that is not an array
  is not kept in this model (\<open>updateSavedColumns\<close> puts only arrays into \<open>listArrays\<close>).
\<close>

definition updateItem :: "nat \<Rightarrow> nat \<Rightarrow> state \<Rightarrow> error + state" where
  "updateItem index column s =
     (let selectedArray = nth_opt (listArrays s) column
      in case nth_opt listColumns column of
           None \<Rightarrow> Inl TypeError
         | Some columnEl \<Rightarrow>
             (let selectedColumnEl = children s columnEl;
                  el = nth_opt selectedColumnEl index
              in if el = draggedItem s then Inr s
                 else
                   (case el of
                      None \<Rightarrow> Inl TypeError
                    | Some e \<Rightarrow>
                        (case selectedArray of
                           None \<Rightarrow> Inl TypeError
                         | Some (NotArr v) \<Rightarrow> updateDOM s
                         | Some (Arr a) \<Rightarrow>
                             if textContent (elements s e) = [] then
                               updateDOM (s\<lparr>heap := (heap s)(a := delete_slot (heap s a) index)\<rparr>)
                             else
                               updateDOM (s\<lparr>heap := (heap s)(a :=
                                   set_slot (heap s a) index (JStr (textContent (elements s e))))\<rparr>)))))"

definition addToColumn :: "nat \<Rightarrow> state \<Rightarrow> error + state" where
  "addToColumn column s =
     (case nth_opt (addItems s) column of
        None \<Rightarrow> Inl TypeError
      | Some text \<Rightarrow>
          (let item = trim text;
               (valid, s1) = validateItemText item s
           in if \<not> valid then updateDOM (s1\<lparr>addItems := (addItems s1)[column := []]\<rparr>)
              else
                (case nth_opt (listArrays s1) column of
                   Some (Arr a) \<Rightarrow>
                     updateDOM (s1\<lparr>heap := (heap s1)(a := heap s1 a @ [Some (JStr item)]),
                                   addItems := (addItems s1)[column := []]\<rparr>)
                 | _ \<Rightarrow> Inl TypeError)))"

definition hideInputBox :: "nat \<Rightarrow> state \<Rightarrow> error + state" where
  "hideInputBox column s = addToColumn column s"

text \<open>\<open>for (const child of list.children) array.push(child.textContent)\<close>.\<close>

fun push_texts :: "nat list \<Rightarrow> nat \<Rightarrow> state \<Rightarrow> state" where
  "push_texts [] a s = s"
| "push_texts (child # rest) a s =
     push_texts rest a
       (s\<lparr>heap := (heap s)(a := heap s a @ [Some (JStr (textContent (elements s child)))])\<rparr>)"

definition rebuildArrays :: "state \<Rightarrow> error + state" where
  "rebuildArrays s =
     (let (b, s1) = new_array [] s;
          s1 = s1\<lparr>backlogListArray := Arr b\<rparr>;
          (p, s2) = new_array [] s1;
          s2 = s2\<lparr>progressListArray := Arr p\<rparr>;
          (c, s3) = new_array [] s2;
          s3 = s3\<lparr>completeListArray := Arr c\<rparr>;
          (h, s4) = new_array [] s3;
          s4 = s4\<lparr>onHoldListArray := Arr h\<rparr>;
          s5 = push_texts (children s4 BacklogList) b s4;
          s6 = push_texts (children s5 ProgressList) p s5;
          s7 = push_texts (children s6 CompleteList) c s6;
          s8 = push_texts (children s7 OnHoldList) h s7
      in updateDOM s8)"

definition drag :: "nat \<Rightarrow> state \<Rightarrow> state" where
  "drag target s = s\<lparr>draggedItem := Some target\<rparr>"

definition dragEnter :: "nat \<Rightarrow> state \<Rightarrow> error + state" where
  "dragEnter column s =
     (case nth_opt listColumns column of
        None \<Rightarrow> Inl TypeError
      | Some columnEl \<Rightarrow> Inr (s\<lparr>currentColumn := Some column\<rparr>))"

text \<open>\<open>parent.appendChild(el)\<close> takes the element out of the list it is in, if any.\<close>

definition appendChild :: "node \<Rightarrow> nat \<Rightarrow> state \<Rightarrow> state" where
  "appendChild parent el s =
     s\<lparr>children := (\<lambda>n. removeAll el (children s n) @ (if n = parent then [el] else []))\<rparr>"

text \<open>
  \<open>drop\<close>, named \<open>drop_item\<close> here, \<open>drop\<close> being a function on lists. With no
  column entered \<open>parent\<close> is \<open>undefined\<close> and the call on it throws; with no element
  picked up \<open>appendChild(undefined)\<close> throws.
\<close>

definition drop_item :: "state \<Rightarrow> error + state" where
  "drop_item s =
     (case currentColumn s of
        None \<Rightarrow> Inl TypeError
      | Some column \<Rightarrow>
          (case nth_opt listColumns column of
             None \<Rightarrow> Inl TypeError
           | Some parent \<Rightarrow>
               (case draggedItem s of
                  None \<Rightarrow> Inl TypeError
                | Some el \<Rightarrow> rebuildArrays (appendChild parent el s))))"

section \<open>The page and the operations of the specification\<close>

definition no_element :: element where
  "no_element = \<lparr>textContent = [], el_id = 0, el_onfocusout = (0, 0)\<rparr>"

text \<open>
  The state when the script starts: the four variables hold four new empty arrays,
  \<open>listArrays\<close> is empty, nothing is dragged, and the lists have no children.
\<close>

definition initial :: "storage \<Rightarrow> state" where
  "initial st =
     \<lparr>localStorage = st, updatedOnLoad = False,
      backlogListArray = Arr 0, progressListArray = Arr 1,
      completeListArray = Arr 2, onHoldListArray = Arr 3,
      listArrays = [], draggedItem = None, currentColumn = None,
      heap = (\<lambda>a. []), nextArr = 4,
      children = (\<lambda>n. []), elements = (\<lambda>e. no_element), nextEl = 0,
      addItems = [[], [], [], []], alerts = []\<rparr>"

text \<open>
  \<open>load()\<close> is \<open>getSavedColumns\<close> on a fresh page; the last line of the script renders
  it. \<open>save(board)\<close> is \<open>updateSavedColumns\<close>.
\<close>

definition load :: "storage \<Rightarrow> state" where
  "load st = getSavedColumns (initial st)"

definition page_load :: "storage \<Rightarrow> error + state" where
  "page_load st = updateDOM (initial st)"

text \<open>
  The Board: the contents of the four variables, \<open>None\<close> for a variable that does not
  hold an array.
\<close>

definition variables :: "state \<Rightarrow> jsvalue list" where
  "variables s = [backlogListArray s, progressListArray s, completeListArray s, onHoldListArray s]"

definition contents :: "state \<Rightarrow> jsvalue \<Rightarrow> jsv option list option" where
  "contents s v = (case v of Arr a \<Rightarrow> Some (heap s a) | NotArr x \<Rightarrow> None)"

definition column :: "state \<Rightarrow> nat \<Rightarrow> jsv option list option" where
  "column s k = contents s (variables s ! k)"

definition board :: "state \<Rightarrow> jsv option list option list" where
  "board s = map (contents s) (variables s)"

definition strings :: "string list \<Rightarrow> jsv option list option" where
  "strings xs = Some (map (\<lambda>x. Some (JStr (js x))) xs)"

definition seed_board :: "jsv option list option list" where
  "seed_board =
     [strings [''Release the course'', ''Sit back and relax''],
      strings [''Work on projects'', ''Listen to music''],
      strings [''Being cool'', ''Getting stuff done''],
      strings [''Being uncool'']]"

definition keys :: "string list" where
  "keys = [''backlogItems'', ''progressItems'', ''completeItems'', ''onHoldItems'']"

definition persisted :: "state \<Rightarrow> nat \<Rightarrow> jsstring option" where
  "persisted s k = items (localStorage s) (keys ! k)"

text \<open>The texts of the children of a list, from top to bottom.\<close>

definition texts :: "state \<Rightarrow> node \<Rightarrow> jsstring list" where
  "texts s n = map (\<lambda>e. textContent (elements s e)) (children s n)"

text \<open>
  \<open>addItem\<close>: the user types the text into the add box of the column and saves.
  \<open>editItem\<close>: the user leaves the item at the index with the new text in it.
  \<open>moveItem\<close>: the user picks the element up, enters the target column and drops it.
\<close>

definition addItem :: "nat \<Rightarrow> jsstring \<Rightarrow> state \<Rightarrow> error + state" where
  "addItem c t s = hideInputBox c (s\<lparr>addItems := (addItems s)[c := t]\<rparr>)"

definition set_text :: "nat \<Rightarrow> jsstring \<Rightarrow> state \<Rightarrow> state" where
  "set_text e t s = s\<lparr>elements := (elements s)(e := (elements s e)\<lparr>textContent := t\<rparr>)\<rparr>"

definition element_at :: "state \<Rightarrow> nat \<Rightarrow> nat \<Rightarrow> nat option" where
  "element_at s c i =
     (case nth_opt listColumns c of None \<Rightarrow> None | Some n \<Rightarrow> nth_opt (children s n) i)"

definition editItem :: "nat \<Rightarrow> nat \<Rightarrow> jsstring \<Rightarrow> state \<Rightarrow> error + state" where
  "editItem c i newText s =
     updateItem i c (case element_at s c i of None \<Rightarrow> s | Some e \<Rightarrow> set_text e newText s)"

definition moveItem :: "nat \<Rightarrow> nat \<Rightarrow> state \<Rightarrow> error + state" where
  "moveItem el target s = then_do (dragEnter target (drag el s)) drop_item"

section \<open>Notions used to state the properties\<close>

text \<open>
  What \<open>value || []\<close> makes of a parsed value, and what \<open>safeJSONParse(data) || []\<close>
  makes of the stored text of one column.
\<close>

definition loaded :: "jsv \<Rightarrow> jsv option list option" where
  "loaded v =
     (if is_truthy v then (case v of JArr xs \<Rightarrow> Some (map Some xs) | _ \<Rightarrow> None) else Some [])"

definition loaded_column :: "jsstring option \<Rightarrow> jsv option list option" where
  "loaded_column data =
     (let v = safeJSONParse data
      in if is_truthy v then (case v of JArr xs \<Rightarrow> Some (map Some xs) | _ \<Rightarrow> None)
         else Some [])"

text \<open>The elements that one block of \<open>updateDOM\<close> creates, and where they are put.\<close>

fun created :: "nat \<Rightarrow> nat \<Rightarrow> jsv option list \<Rightarrow> element list" where
  "created c index [] = []"
| "created c index (None # xs) = created c (Suc index) xs"
| "created c index (Some item # xs) =
     \<lparr>textContent = text_of item, el_id = index, el_onfocusout = (index, c)\<rparr>
       # created c (Suc index) xs"

definition place :: "nat \<Rightarrow> element list \<Rightarrow> (nat \<Rightarrow> element) \<Rightarrow> nat \<Rightarrow> element" where
  "place n es f = (\<lambda>e. if n \<le> e \<and> e < n + length es then es ! (e - n) else f e)"

fun present :: "'a option list \<Rightarrow> 'a list" where
  "present [] = []"
| "present (None # xs) = present xs"
| "present (Some x # xs) = x # present xs"

definition keep :: "jsv option \<Rightarrow> bool" where
  "keep x \<longleftrightarrow> x \<noteq> None \<and> x \<noteq> Some JNull"

text \<open>
  A settled page: the state between two handlers once the page has loaded, every item
  being a string. The four variables hold four different arrays, \<open>listArrays\<close> shares
  them, every column has one element for each item, and no element is in two places.
\<close>

definition string_slot :: "jsv option \<Rightarrow> bool" where
  "string_slot x = (case x of Some (JStr t) \<Rightarrow> True | _ \<Rightarrow> False)"

definition allocated :: "state \<Rightarrow> jsvalue \<Rightarrow> bool" where
  "allocated s v = (case v of Arr a \<Rightarrow> a < nextArr s | NotArr x \<Rightarrow> False)"

definition settled :: "state \<Rightarrow> bool" where
  "settled s \<longleftrightarrow>
     updatedOnLoad s \<and> listArrays s = variables s \<and> distinct (variables s) \<and>
     list_all (allocated s) (variables s) \<and>
     list_all (\<lambda>k. case column s k of
                      None \<Rightarrow> False
                    | Some xs \<Rightarrow> list_all string_slot xs \<and>
                        length (children s (listColumns ! k)) = length xs) [0 ..< 4] \<and>
     distinct (concat (map (children s) listColumns)) \<and>
     length (addItems s) = 4"

text \<open>The page shows the Board: the texts of every list are the items of its column.\<close>

definition shown :: "state \<Rightarrow> bool" where
  "shown s \<longleftrightarrow>
     list_all (\<lambda>k. case column s k of
                      None \<Rightarrow> False
                    | Some xs \<Rightarrow> texts s (listColumns ! k) = map (\<lambda>x. text_of (slot_value x)) xs)
       [0 ..< 4]"

text \<open>The storage holds the Board: every key has the JSON text of its column.\<close>

definition saved :: "state \<Rightarrow> bool" where
  "saved s \<longleftrightarrow>
     list_all (\<lambda>k. case column s k of
                      None \<Rightarrow> False
                    | Some xs \<Rightarrow> persisted s k = Some (stringify_array xs)) [0 ..< 4]"

text \<open>An array whose slots are strings or holes, as an edit leaves it.\<close>

definition strings_or_holes :: "jsv option list \<Rightarrow> bool" where
  "strings_or_holes xs = list_all (\<lambda>x. x = None \<or> string_slot x) xs"

text \<open>
  The state that \<open>updateDOM\<close> reaches from a loaded page whose variables hold the arrays
  at \<open>a0\<close> to \<open>a3\<close>: four new lists of elements, four new filtered arrays, and the
  storage written by \<open>updateSavedColumns\<close>.
\<close>

definition refreshed :: "nat \<Rightarrow> nat \<Rightarrow> nat \<Rightarrow> nat \<Rightarrow> state \<Rightarrow> state" where
  "refreshed a0 a1 a2 a3 s =
     (let n0 = nextEl s;
          e0 = created 0 0 (heap s a0); e1 = created 1 0 (heap s a1);
          e2 = created 2 0 (heap s a2); e3 = created 3 0 (heap s a3);
          n1 = n0 + length e0; n2 = n1 + length e1; n3 = n2 + length e2
      in updateSavedColumns (s\<lparr>
           elements := place n3 e3 (place n2 e2 (place n1 e1 (place n0 e0 (elements s)))),
           nextEl := n3 + length e3,
           children := (children s)(BacklogList := [n0 ..< n1], ProgressList := [n1 ..< n2],
              CompleteList := [n2 ..< n3], OnHoldList := [n3 ..< n3 + length e3]),
           backlogListArray := Arr (nextArr s),
           progressListArray := Arr (Suc (nextArr s)),
           completeListArray := Arr (Suc (Suc (nextArr s))),
           heap := (heap s)(nextArr s := filter keep (heap s a0),
              Suc (nextArr s) := filter keep (heap s a1),
              Suc (Suc (nextArr s)) := filter keep (heap s a2),
              Suc (Suc (Suc (nextArr s))) := filter keep (heap s a3)),
           nextArr := Suc (Suc (Suc (Suc (nextArr s)))),
           onHoldListArray := Arr (Suc (Suc (Suc (nextArr s)))),
           updatedOnLoad := True\<rparr>))"

text \<open>
  The mutating operations. An operation is applicable when the handler has what it works
  on: a column, a target column, or an element at the index that is not the element
  being dragged. An edit is skipped when the element at the index is the element being
  dragged (or when there is no such element and nothing has been dragged yet).
\<close>

datatype operation = AddItem nat jsstring | EditItem nat nat jsstring | MoveItem nat nat

fun perform :: "operation \<Rightarrow> state \<Rightarrow> error + state" where
  "perform (AddItem c t) s = addItem c t s"
| "perform (EditItem c i t) s = editItem c i t s"
| "perform (MoveItem el target) s = moveItem el target s"

fun applicable :: "operation \<Rightarrow> state \<Rightarrow> bool" where
  "applicable (AddItem c t) s = (c < 4)"
| "applicable (EditItem c i t) s =
     (element_at s c i \<noteq> None \<and> element_at s c i \<noteq> draggedItem s)"
| "applicable (MoveItem el target) s = (target < 4)"

fun skipped :: "operation \<Rightarrow> state \<Rightarrow> bool" where
  "skipped (EditItem c i t) s = (c < 4 \<and> element_at s c i = draggedItem s)"
| "skipped (AddItem c t) s = False"
| "skipped (MoveItem el target) s = False"

text \<open>No handler changes whether the storage can be read or written.\<close>

definition same_flags :: "state \<Rightarrow> state \<Rightarrow> bool" where
  "same_flags s s' \<longleftrightarrow>
     write_fails (localStorage s') = write_fails (localStorage s) \<and>
     read_fails (localStorage s') = read_fails (localStorage s)"



text \<open>A storage that works and holds nothing.\<close>

definition empty_storage :: storage where
  "empty_storage = \<lparr>items = (\<lambda>k. None), read_fails = False, write_fails = False\<rparr>"

text \<open>
  The Board that the storage stands for: the seed Board when the storage cannot be read or
  its first item is absent or empty, and otherwise what the text of each key gives.
\<close>

definition stored_board :: "storage \<Rightarrow> jsv option list option list" where
  "stored_board st =
     (if read_fails st \<or> items st ''backlogItems'' = None \<or> items st ''backlogItems'' = Some []
      then seed_board
      else map (\<lambda>k. loaded_column (items st k)) keys)"

text \<open>
  The pages that the user reaches when the storage works: the page loaded over an empty
  storage, the page loaded again over the storage that an earlier page has left, and the
  pages that an operation, picking an element up, or typing into an element lead to.
\<close>

inductive reachable :: "state \<Rightarrow> bool" where
  fresh: "page_load empty_storage = Inr s \<Longrightarrow> reachable s"
| reload: "reachable s \<Longrightarrow> page_load (localStorage s) = Inr s' \<Longrightarrow> reachable s'"
| operation: "reachable s \<Longrightarrow> perform op s = Inr s' \<Longrightarrow> reachable s'"
| pick_up: "reachable s \<Longrightarrow> reachable (drag el s)"
| typing: "reachable s \<Longrightarrow> reachable (set_text e t s)"

section \<open>Example pages\<close>

text \<open>Every key holds a text that is not JSON.\<close>

definition corrupt_storage :: storage where
  "corrupt_storage =
     empty_storage\<lparr>items :=
       [''backlogItems'' \<mapsto> js ''{bad'', ''progressItems'' \<mapsto> js ''{bad'',
        ''completeItems'' \<mapsto> js ''{bad'', ''onHoldItems'' \<mapsto> js ''{bad'']\<rparr>"

text \<open>The first key holds the empty text, the second one a column of one item.\<close>

definition blank_first_storage :: storage where
  "blank_first_storage =
     empty_storage\<lparr>items :=
       [''backlogItems'' \<mapsto> [], ''progressItems'' \<mapsto> js ''[\"x\"]'']\<rparr>"

text \<open>The first key holds a column of one item, the second one a text that is not JSON.\<close>

definition mixed_storage :: storage where
  "mixed_storage =
     empty_storage\<lparr>items :=
       [''backlogItems'' \<mapsto> js ''[\"a\"]'', ''progressItems'' \<mapsto> js ''{bad'']\<rparr>"

text \<open>
  A settled page with two items in Backlog and one in Progress, shown by the elements
  0, 1 and 2.
\<close>

definition example_page :: state where
  "example_page =
     \<lparr>localStorage = empty_storage, updatedOnLoad = True,
      backlogListArray = Arr 0, progressListArray = Arr 1,
      completeListArray = Arr 2, onHoldListArray = Arr 3,
      listArrays = [Arr 0, Arr 1, Arr 2, Arr 3], draggedItem = None, currentColumn = None,
      heap = (\<lambda>a. if a = 0 then [Some (JStr (js ''Release'')), Some (JStr (js ''Relax''))]
                  else if a = 1 then [Some (JStr (js ''Work''))] else []),
      nextArr = 4,
      children = (\<lambda>n. case n of BacklogList \<Rightarrow> [0, 1] | ProgressList \<Rightarrow> [2] | _ \<Rightarrow> []),
      elements = (\<lambda>e. \<lparr>textContent =
                          (if e = 0 then js ''Release'' else if e = 1 then js ''Relax''
                           else js ''Work''),
                        el_id = (if e = 1 then 1 else 0),
                        el_onfocusout = (if e = 1 then 1 else 0, if e = 2 then 1 else 0)\<rparr>),
      nextEl = 3,
      addItems = [[], [], [], []], alerts = []\<rparr>"




section \<open>The JSON functions: a column of strings is read back as written\<close>

lemma hexval_hexdigits: "list_all (\<lambda>n. hexval (hexdigit n) = Some n) [0 ..< 16]"
  by (simp add: upt_rec hexval_def hexdigit_def)

lemma hexval_hexdigit: "n < 16 \<Longrightarrow> hexval (hexdigit n) = Some n"
  using hexval_hexdigits by (simp add: list_all_iff)

lemma nat_digits:
  assumes "n < 65536"
  shows "(n div 4096 mod 16) * 4096 + (n div 256 mod 16) * 256 + (n div 16 mod 16) * 16 +
           n mod 16 = (n::nat)"
proof -
  have a: "n mod 65536 = 4096 * (n div 4096 mod 16) + n mod 4096"
    using mod_mult2_eq [of n 4096 16] by simp
  have b: "n mod 4096 = 256 * (n div 256 mod 16) + n mod 256"
    using mod_mult2_eq [of n 256 16] by simp
  have c: "n mod 256 = 16 * (n div 16 mod 16) + n mod 16"
    using mod_mult2_eq [of n 16 16] by simp
  have "n mod 65536 = n" using assms by simp
  with a b c show ?thesis by linarith
qed

lemma unat_digits:
  "(unat c div 4096 mod 16) * 4096 + (unat c div 256 mod 16) * 256 +
     (unat c div 16 mod 16) * 16 + unat c mod 16 = unat (c :: jschar)"
proof -
  have "unat c < 2 ^ 16"
    using unsigned_less [of c, where ?'a = nat] by simp
  then show ?thesis by (intro nat_digits) simp
qed

lemma unhex4_escape:
  "unhex4 (hexdigit (unat c div 4096 mod 16)) (hexdigit (unat c div 256 mod 16))
     (hexdigit (unat c div 16 mod 16)) (hexdigit (unat c mod 16)) = Some c"
proof -
  have "(of_nat ((unat c div 4096 mod 16) * 4096 + (unat c div 256 mod 16) * 256 +
          (unat c div 16 mod 16) * 16 + unat c mod 16) :: jschar) = of_nat (unat c)"
    by (simp only: unat_digits)
  also have "\<dots> = c" by simp
  finally show ?thesis
    by (simp add: unhex4_def hexval_hexdigit del: of_nat_add of_nat_mult)
qed

lemma surrogate_plain:
  "is_lead c \<or> is_trail c \<Longrightarrow> \<not> c < 0x20 \<and> c \<noteq> 0x22 \<and> c \<noteq> 0x5C"
  unfolding is_lead_def is_trail_def by unat_arith

lemma scan_string_unit:
  "scan_string (quote_unit c @ rest) = cons_result c (scan_string rest)"
  by (simp add: quote_unit_def unicode_escape_def unescape_def unhex4_escape Let_def)

lemma scan_string_pair:
  "is_lead c \<Longrightarrow> is_trail d \<Longrightarrow>
   scan_string (c # d # rest) = cons_result c (cons_result d (scan_string rest))"
  using surrogate_plain [of c] surrogate_plain [of d] by simp

lemma scan_string_quote_chars:
  "scan_string (quote_chars s @ 0x22 # rest) = Some (s, rest)"
proof (induction s rule: quote_chars.induct)
  case 1
  then show ?case by simp
next
  case (2 c)
  have "scan_string (quote_chars [c] @ 0x22 # rest) = cons_result c (scan_string (0x22 # rest))"
    by (simp only: quote_chars.simps scan_string_unit)
  then show ?case by (simp add: cons_result_def)
next
  case (3 c d cs)
  show ?case
  proof (cases "is_lead c \<and> is_trail d")
    case True
    then have "scan_string (quote_chars (c # d # cs) @ 0x22 # rest) =
        cons_result c (cons_result d (scan_string (quote_chars cs @ 0x22 # rest)))"
      using scan_string_pair [of c d "quote_chars cs @ 0x22 # rest"] by simp
    then show ?thesis
      using 3(1) [OF True] by (simp add: cons_result_def)
  next
    case False
    then have "quote_chars (c # d # cs) = quote_unit c @ quote_chars (d # cs)"
      by auto
    then have "scan_string (quote_chars (c # d # cs) @ 0x22 # rest) =
        cons_result c (scan_string (quote_chars (d # cs) @ 0x22 # rest))"
      by (simp only: append_assoc scan_string_unit)
    then show ?thesis
      using 3(2) [OF False] by (simp add: cons_result_def)
  qed
qed

lemma parse_value_string:
  "parse_value (Suc n) (QuoteJSONString s @ rest) = Some (JStr s, rest)"
  by (simp add: QuoteJSONString_def skip_ws_def is_json_ws_def scan_string_quote_chars)

lemma QuoteJSONString_Cons: "\<exists>r. QuoteJSONString s = 0x22 # r"
  by (simp add: QuoteJSONString_def)

lemma parse_elements_strings:
  "ss \<noteq> [] \<Longrightarrow> length ss < n \<Longrightarrow>
   parse_elements n (join [0x2C] (map QuoteJSONString ss) @ 0x5D # rest) = Some (map JStr ss, rest)"
proof (induction ss arbitrary: n)
  case Nil
  then show ?case by simp
next
  case (Cons x ss)
  from Cons.prems obtain m where n: "n = Suc (Suc m)"
    by (cases n; cases "n - 1") auto
  show ?case
  proof (cases ss)
    case Nil
    then show ?thesis
      by (simp add: n parse_value_string skip_ws_def is_json_ws_def del: parse_value.simps)
  next
    case (Cons y ys)
    then have "parse_elements (Suc m) (join [0x2C] (map QuoteJSONString ss) @ 0x5D # rest) =
        Some (map JStr ss, rest)"
      using Cons.IH [of "Suc m"] Cons.prems n by simp
    then show ?thesis
      using Cons
      by (simp add: n parse_value_string skip_ws_def is_json_ws_def cons_result_def
          del: parse_value.simps)
  qed
qed

lemma length_join_strings: "length ss \<le> length (join [0x2C] (map QuoteJSONString ss))"
  by (induction ss rule: induct_list012) (simp_all add: QuoteJSONString_def)

lemma JSON_parse_strings:
  "JSON_parse (stringify_value (JArr (map JStr ss))) = Some (JArr (map JStr ss))"
proof (cases ss)
  case Nil
  then show ?thesis
    by (simp add: JSON_parse_def skip_ws_def is_json_ws_def)
next
  case (Cons x xs)
  obtain r where r: "QuoteJSONString x = 0x22 # r"
    using QuoteJSONString_Cons by blast
  define body where "body = join [0x2C] (map QuoteJSONString ss)"
  have body: "\<exists>r'. body = 0x22 # r'"
    unfolding body_def using Cons r by (cases xs) simp_all
  have len: "length ss < Suc (Suc (length body))"
    unfolding body_def using length_join_strings [of ss] by simp
  have "parse_elements (Suc (Suc (length body))) (body @ 0x5D # []) = Some (map JStr ss, [])"
    unfolding body_def using Cons len
    by (intro parse_elements_strings) (simp_all add: body_def)
  moreover have "stringify_value (JArr (map JStr ss)) = 0x5B # body @ [0x5D]"
    by (simp add: body_def comp_def)
  ultimately show ?thesis
    using body
    by (auto simp add: JSON_parse_def skip_ws_def is_json_ws_def
        simp del: parse_elements.simps stringify_value.simps)
qed

section \<open>Loading\<close>

lemma or_empty_loaded:
  "or_empty v s =
     (case loaded v of
        Some xs \<Rightarrow>
          (Arr (nextArr s), s\<lparr>heap := (heap s)(nextArr s := xs), nextArr := Suc (nextArr s)\<rparr>)
      | None \<Rightarrow> (NotArr v, s))"
  by (cases v) (simp_all add: or_empty_def loaded_def new_array_def)

lemma board_default_columns: "board (default_columns s) = seed_board"
  by (simp add: board_def variables_def contents_def default_columns_def array_literal_def
      new_array_def seed_board_def strings_def Let_def)

lemma alerts_default_columns: "alerts (default_columns s) = alerts s"
  by (simp add: default_columns_def array_literal_def new_array_def Let_def)

lemma load_seed:
  "read_fails st \<or> items st ''backlogItems'' = None \<or> items st ''backlogItems'' = Some [] \<Longrightarrow>
   board (load st) = seed_board"
  by (auto simp add: load_def getSavedColumns_def getItem_def board_default_columns initial_def)

lemma alerts_load: "alerts (load st) = []"
  by (simp add: load_def getSavedColumns_def getItem_def alerts_default_columns or_empty_loaded
      initial_def Let_def split: option.splits)

lemma column_load:
  assumes "\<not> read_fails st" "items st ''backlogItems'' = Some v" "v \<noteq> []"
  shows "column (load st) 0 = loaded_column (items st ''backlogItems'')"
    and "column (load st) 1 = loaded_column (items st ''progressItems'')"
    and "column (load st) 2 = loaded_column (items st ''completeItems'')"
    and "column (load st) 3 = loaded_column (items st ''onHoldItems'')"
  using assms
  by (simp_all add: load_def getSavedColumns_def getItem_def or_empty_loaded loaded_column_def
      loaded_def [symmetric] column_def variables_def contents_def initial_def Let_def
      split: option.splits)

lemma less_four: "k < 4 \<Longrightarrow> k = 0 \<or> k = 1 \<or> k = 2 \<or> k = (3::nat)"
  by arith

lemma column_load_key:
  assumes "\<not> read_fails st" "items st ''backlogItems'' = Some v" "v \<noteq> []" "k < 4"
  shows "column (load st) k = loaded_column (items st (keys ! k))"
  using less_four [OF assms(4)] column_load [OF assms(1-3)]
  by (elim disjE) (simp_all add: keys_def)

lemma loaded_column_unparseable:
  "data = None \<or> (\<exists>t. data = Some t \<and> JSON_parse t = None) \<Longrightarrow> loaded_column data = Some []"
proof -
  have "JSON_parse (js ''undefined'') = None"
    by (simp add: JSON_parse_def js_def skip_ws_def is_json_ws_def scan_number_def is_digit_def)
  moreover assume "data = None \<or> (\<exists>t. data = Some t \<and> JSON_parse t = None)"
  ultimately show ?thesis
    by (auto simp add: loaded_column_def safeJSONParse_def)
qed

lemma board_columns: "board s = map (column s) [0, 1, 2, 3]"
  by (simp add: board_def column_def variables_def)

lemma JSON_parse_bad: "JSON_parse (js ''{bad'') = None"
  by (simp add: JSON_parse_def js_def skip_ws_def is_json_ws_def)

text \<open>
  C2, as amended. \<open>load()\<close> returns the seed Board when the stored data is missing (the
  first item is absent or empty) or the storage cannot be read. When the text of every
  key is unparseable it returns four empty columns, not the seed Board. In every case
  \<open>load\<close> returns a state, and it shows no warning.
\<close>

theorem load_missing_or_unparseable:
  "(read_fails st \<or> items st ''backlogItems'' = None \<or> items st ''backlogItems'' = Some []
      \<longrightarrow> board (load st) = seed_board) \<and>
   (\<not> read_fails st \<and> (\<forall>k < 4. \<exists>t. items st (keys ! k) = Some t \<and> t \<noteq> [] \<and> JSON_parse t = None)
      \<longrightarrow> board (load st) = [Some [], Some [], Some [], Some []]) \<and>
   alerts (load st) = []"
proof (intro conjI impI)
  assume "read_fails st \<or> items st ''backlogItems'' = None \<or> items st ''backlogItems'' = Some []"
  then show "board (load st) = seed_board" by (rule load_seed)
next
  assume a: "\<not> read_fails st \<and>
    (\<forall>k < 4. \<exists>t. items st (keys ! k) = Some t \<and> t \<noteq> [] \<and> JSON_parse t = None)"
  then obtain v where v: "items st ''backlogItems'' = Some v" "v \<noteq> []"
    by (auto simp add: keys_def dest: spec [of _ 0])
  have "column (load st) k = Some []" if "k < 4" for k
  proof -
    have "\<exists>t. items st (keys ! k) = Some t \<and> JSON_parse t = None"
      using a that by blast
    then have "loaded_column (items st (keys ! k)) = Some []"
      by (intro loaded_column_unparseable) simp
    then show ?thesis
      using column_load_key [of st v k] a v that by simp
  qed
  then show "board (load st) = [Some [], Some [], Some [], Some []]"
    by (simp add: board_columns)
next
  show "alerts (load st) = []" by (rule alerts_load)
qed

theorem load_missing_or_unparseable_witness:
  "board (load empty_storage) = seed_board \<and>
   board (load corrupt_storage) = [Some [], Some [], Some [], Some []] \<and>
   alerts (load corrupt_storage) = []"
proof -
  have "\<forall>k < 4. \<exists>t. items corrupt_storage (keys ! k) = Some t \<and> t \<noteq> [] \<and> JSON_parse t = None"
  proof (intro allI impI)
    fix k :: nat
    assume "k < 4"
    then show "\<exists>t. items corrupt_storage (keys ! k) = Some t \<and> t \<noteq> [] \<and> JSON_parse t = None"
      using JSON_parse_bad
      by (auto dest!: less_four simp add: corrupt_storage_def empty_storage_def keys_def js_def)
  qed
  then show ?thesis
    using load_missing_or_unparseable [of empty_storage]
      load_missing_or_unparseable [of corrupt_storage]
    by (simp add: empty_storage_def corrupt_storage_def)
qed

text \<open>
  C2, as stated, fails: with an unparseable text under every key, \<open>load()\<close> returns four
  empty columns and not the seed Board.
\<close>

theorem load_corrupt_counterexample:
  "JSON_parse (js ''{bad'') = None \<and>
   board (load corrupt_storage) = [Some [], Some [], Some [], Some []] \<and>
   board (load corrupt_storage) \<noteq> seed_board"
proof -
  have "column (load corrupt_storage) k = Some []" if "k < 4" for k
  proof -
    have "loaded_column (items corrupt_storage (keys ! k)) = Some []"
      using that JSON_parse_bad
      by (intro loaded_column_unparseable)
        (auto dest!: less_four simp add: corrupt_storage_def empty_storage_def keys_def)
    moreover have "column (load corrupt_storage) k = loaded_column (items corrupt_storage (keys ! k))"
      using that
      by (intro column_load_key [where v = "js ''{bad''"])
        (simp_all add: corrupt_storage_def empty_storage_def js_def)
    ultimately show ?thesis by simp
  qed
  then have "board (load corrupt_storage) = [Some [], Some [], Some [], Some []]"
    by (simp add: board_columns)
  then show ?thesis
    using JSON_parse_bad by (simp add: seed_board_def strings_def)
qed

text \<open>
  C10, as amended. When the storage can be read and the first item is present and not
  empty, every column comes from the text of its own key alone: it is what
  \<open>safeJSONParse(text) || []\<close> makes of that text, and it is the empty sequence when the
  key is absent or its text is not valid JSON.
\<close>

theorem load_column_from_own_key:
  assumes "\<not> read_fails st" and "items st ''backlogItems'' = Some v" and "v \<noteq> []" and "k < 4"
  shows "column (load st) k = loaded_column (items st (keys ! k)) \<and>
    (items st (keys ! k) = None \<or> (\<exists>t. items st (keys ! k) = Some t \<and> JSON_parse t = None)
       \<longrightarrow> column (load st) k = Some [])"
  using column_load_key [OF assms] loaded_column_unparseable [of "items st (keys ! k)"]
  by auto

theorem load_column_from_own_key_witness:
  "column (load mixed_storage) 0 = Some [Some (JStr (js ''a''))] \<and>
   column (load mixed_storage) 1 = Some []"
proof -
  have a: "JSON_parse (js ''[\"a\"]'') = Some (JArr [JStr (js ''a'')])"
    by (simp add: JSON_parse_def js_def skip_ws_def is_json_ws_def cons_result_def)
  have r: "\<not> read_fails mixed_storage"
    and b: "items mixed_storage ''backlogItems'' = Some (js ''[\"a\"]'')"
    and n: "js ''[\"a\"]'' \<noteq> []"
    and p: "items mixed_storage ''progressItems'' = Some (js ''{bad'')"
    by (simp_all add: mixed_storage_def empty_storage_def js_def)
  show ?thesis
    using load_column_from_own_key [OF r b n, of 0] load_column_from_own_key [OF r b n, of 1]
      a b p JSON_parse_bad
    by (simp add: keys_def loaded_column_def safeJSONParse_def)
qed

text \<open>
  C10, as stated, fails when the first key is present with the empty text: every column
  gets the seed defaults, also the second one, whose own key holds a column of one item.
\<close>

theorem load_blank_first_counterexample:
  "items blank_first_storage ''backlogItems'' \<noteq> None \<and> \<not> read_fails blank_first_storage \<and>
   items blank_first_storage ''progressItems'' = Some (js ''[\"x\"]'') \<and>
   loaded_column (Some (js ''[\"x\"]'')) = Some [Some (JStr (js ''x''))] \<and>
   board (load blank_first_storage) = seed_board \<and>
   column (load blank_first_storage) 1 \<noteq> Some [Some (JStr (js ''x''))]"
proof -
  have "board (load blank_first_storage) = seed_board"
    by (rule load_seed) (simp add: blank_first_storage_def empty_storage_def)
  moreover have "loaded_column (Some (js ''[\"x\"]'')) = Some [Some (JStr (js ''x''))]"
    by (simp add: loaded_column_def safeJSONParse_def JSON_parse_def js_def skip_ws_def
        is_json_ws_def cons_result_def)
  ultimately show ?thesis
    by (simp add: board_columns seed_board_def strings_def blank_first_storage_def
        empty_storage_def js_def)
qed

text \<open>A column of strings is read back as it was written.\<close>

lemma string_slots_map:
  "list_all string_slot xs \<Longrightarrow> \<exists>ss. xs = map (\<lambda>t. Some (JStr t)) ss"
proof (induction xs)
  case Nil
  then show ?case by simp
next
  case (Cons x xs)
  then obtain ss t where "xs = map (\<lambda>t. Some (JStr t)) ss" "x = Some (JStr t)"
    by (auto simp add: string_slot_def split: option.splits jsv.splits)
  then have "x # xs = map (\<lambda>t. Some (JStr t)) (t # ss)" by simp
  then show ?case by (rule exI)
qed

lemma loaded_column_stringify:
  assumes "list_all string_slot xs"
  shows "loaded_column (Some (stringify_array xs)) = Some xs"
proof -
  from string_slots_map [OF assms] obtain ss where ss: "xs = map (\<lambda>t. Some (JStr t)) ss"
    by blast
  then have "stringify_array xs = stringify_value (JArr (map JStr ss))"
    by (simp add: stringify_array_def slot_value_def comp_def del: stringify_value.simps)
  then show ?thesis
    using JSON_parse_strings [of ss] ss
    by (simp add: loaded_column_def safeJSONParse_def comp_def del: stringify_value.simps)
qed

lemma stringify_array_not_empty: "stringify_array xs \<noteq> []"
  by (simp add: stringify_array_def)

section \<open>Rendering and saving\<close>

lemma place_Nil [simp]: "place n [] f = f"
  by (auto simp add: place_def fun_eq_iff)

lemma place_Cons: "place (Suc n) es (f(n := x)) = place n (x # es) f"
  by (auto simp add: place_def fun_eq_iff nth_Cons')

lemma upt_shift: "n # [Suc n ..< Suc (n + k)] = [n ..< Suc (n + k)]"
  by (rule upt_conv_Cons [symmetric]) simp

lemma forEach_createItemEl:
  "forEach (createItemEl columnEl c) index xs s =
     s\<lparr>elements := place (nextEl s) (created c index xs) (elements s),
       nextEl := nextEl s + length (created c index xs),
       children := (children s)(columnEl :=
          children s columnEl @ [nextEl s ..< nextEl s + length (created c index xs)])\<rparr>"
proof (induction xs arbitrary: index s)
  case Nil
  then show ?case by simp
next
  case (Cons x xs)
  show ?case
  proof (cases x)
    case None
    then show ?thesis by (simp add: Cons.IH)
  next
    case (Some item)
    have "forEach (createItemEl columnEl c) index (x # xs) s =
          forEach (createItemEl columnEl c) (Suc index) xs (createItemEl columnEl c item index s)"
      using Some by simp
    also have "\<dots> = s\<lparr>elements := place (nextEl s) (created c index (x # xs)) (elements s),
       nextEl := nextEl s + length (created c index (x # xs)),
       children := (children s)(columnEl :=
          children s columnEl @ [nextEl s ..< nextEl s + length (created c index (x # xs))])\<rparr>"
      unfolding Cons.IH using Some
      by (simp add: createItemEl_def Let_def place_Cons upt_shift del: upt_Suc)
    finally show ?thesis .
  qed
qed

lemma map_textContent_created: "map textContent (created c i xs) = map text_of (present xs)"
  by (induction c i xs rule: created.induct) simp_all

lemma length_created: "length (created c i xs) = length (present xs)"
  by (induction c i xs rule: created.induct) simp_all

lemma map_place_here:
  "map (\<lambda>e. textContent (place n es f e)) [n ..< n + length es] = map textContent es"
  by (rule nth_equalityI) (simp_all add: place_def)

lemma map_place_below:
  "m \<le> n \<Longrightarrow>
   map (\<lambda>e. textContent (place n es f e)) [k ..< m] = map (\<lambda>e. textContent (f e)) [k ..< m]"
  by (auto simp add: place_def)

lemma JSON_stringify_frame:
  "JSON_stringify (s\<lparr>localStorage := st\<rparr>) v = JSON_stringify s v"
  "JSON_stringify (s\<lparr>listArrays := l\<rparr>) v = JSON_stringify s v"
  by (cases v; simp add: JSON_stringify_def)+

lemma updateSavedColumns_eq:
  "updateSavedColumns s =
     (if write_fails (localStorage s) then s\<lparr>listArrays := variables s\<rparr>
      else s\<lparr>listArrays := variables s,
             localStorage := (localStorage s)\<lparr>items := (items (localStorage s))
               (''backlogItems'' \<mapsto> JSON_stringify s (backlogListArray s),
                ''progressItems'' \<mapsto> JSON_stringify s (progressListArray s),
                ''completeItems'' \<mapsto> JSON_stringify s (completeListArray s),
                ''onHoldItems'' \<mapsto> JSON_stringify s (onHoldListArray s))\<rparr>\<rparr>)"
  by (simp add: updateSavedColumns_def variables_def upt_conv_Cons setItem_def
      numeral_2_eq_2 numeral_3_eq_3 JSON_stringify_frame Let_def del: upt_Suc)

lemma render_column_Arr:
  "render_column columnEl c (Arr a) s =
     Inr (s\<lparr>elements := place (nextEl s) (created c 0 (heap s a)) (elements s),
            nextEl := nextEl s + length (created c 0 (heap s a)),
            children := (children s)(columnEl :=
               [nextEl s ..< nextEl s + length (created c 0 (heap s a))])\<rparr>)"
  by (simp add: render_column_def forEach_createItemEl)

lemma filterArray_Arr:
  "filterArray (Arr a) s =
     Inr (Arr (nextArr s),
          s\<lparr>heap := (heap s)(nextArr s := filter keep (heap s a)), nextArr := Suc (nextArr s)\<rparr>)"
  by (simp add: filterArray_def new_array_def keep_def [abs_def])

lemma updateDOM_ready:
  assumes "updatedOnLoad s" "backlogListArray s = Arr a0" "progressListArray s = Arr a1"
    "completeListArray s = Arr a2" "onHoldListArray s = Arr a3"
    "a0 < nextArr s" "a1 < nextArr s" "a2 < nextArr s" "a3 < nextArr s"
  shows "updateDOM s = Inr (refreshed a0 a1 a2 a3 s)"
  using assms
  by (simp add: updateDOM_def then_do_def render_column_Arr filterArray_Arr refreshed_def Let_def)

lemma list_all_four: "list_all P [0 ..< 4] \<longleftrightarrow> P 0 \<and> P 1 \<and> P 2 \<and> P (3::nat)"
  by (simp add: upt_rec numeral_2_eq_2 numeral_3_eq_3)

lemma filter_keep_strings:
  "strings_or_holes xs \<Longrightarrow>
   list_all string_slot (filter keep xs) \<and>
   length (filter keep xs) = length (present xs) \<and>
   map (\<lambda>x. text_of (slot_value x)) (filter keep xs) = map text_of (present xs)"
  by (induction xs rule: present.induct)
    (auto simp add: strings_or_holes_def keep_def string_slot_def slot_value_def split: jsv.splits)

lemma distinct_ranges:
  "a \<le> b \<Longrightarrow> b \<le> c \<Longrightarrow> c \<le> d \<Longrightarrow>
   distinct ([a ..< b] @ [b ..< c] @ [c ..< d] @ [d ..< (e::nat)])"
  by auto

lemma refreshed_frame:
  "alerts (refreshed a0 a1 a2 a3 s) = alerts s"
  "draggedItem (refreshed a0 a1 a2 a3 s) = draggedItem s"
  "currentColumn (refreshed a0 a1 a2 a3 s) = currentColumn s"
  "addItems (refreshed a0 a1 a2 a3 s) = addItems s"
  "updatedOnLoad (refreshed a0 a1 a2 a3 s)"
  "write_fails (localStorage (refreshed a0 a1 a2 a3 s)) = write_fails (localStorage s)"
  "read_fails (localStorage (refreshed a0 a1 a2 a3 s)) = read_fails (localStorage s)"
  "write_fails (localStorage s) \<Longrightarrow> localStorage (refreshed a0 a1 a2 a3 s) = localStorage s"
  by (simp_all add: refreshed_def updateSavedColumns_eq Let_def)

lemma refreshed_variables:
  "variables (refreshed a0 a1 a2 a3 s) =
     [Arr (nextArr s), Arr (Suc (nextArr s)), Arr (Suc (Suc (nextArr s))),
      Arr (Suc (Suc (Suc (nextArr s))))]"
  "listArrays (refreshed a0 a1 a2 a3 s) = variables (refreshed a0 a1 a2 a3 s)"
  "nextArr (refreshed a0 a1 a2 a3 s) = Suc (Suc (Suc (Suc (nextArr s))))"
  by (simp_all add: refreshed_def updateSavedColumns_eq variables_def Let_def)

lemma refreshed_column:
  "column (refreshed a0 a1 a2 a3 s) 0 = Some (filter keep (heap s a0))"
  "column (refreshed a0 a1 a2 a3 s) (Suc 0) = Some (filter keep (heap s a1))"
  "column (refreshed a0 a1 a2 a3 s) 2 = Some (filter keep (heap s a2))"
  "column (refreshed a0 a1 a2 a3 s) 3 = Some (filter keep (heap s a3))"
  by (simp_all add: refreshed_def updateSavedColumns_eq column_def variables_def contents_def
      Let_def)

lemma refreshed_persisted:
  assumes "\<not> write_fails (localStorage s)"
  shows "persisted (refreshed a0 a1 a2 a3 s) 0 = Some (stringify_array (filter keep (heap s a0)))"
    "persisted (refreshed a0 a1 a2 a3 s) (Suc 0) = Some (stringify_array (filter keep (heap s a1)))"
    "persisted (refreshed a0 a1 a2 a3 s) 2 = Some (stringify_array (filter keep (heap s a2)))"
    "persisted (refreshed a0 a1 a2 a3 s) 3 = Some (stringify_array (filter keep (heap s a3)))"
  using assms
  by (simp_all add: refreshed_def updateSavedColumns_eq persisted_def keys_def
      JSON_stringify_def Let_def)

lemma refreshed_children:
  "children (refreshed a0 a1 a2 a3 s) BacklogList =
     [nextEl s ..< nextEl s + length (present (heap s a0))]"
  "children (refreshed a0 a1 a2 a3 s) ProgressList =
     [nextEl s + length (present (heap s a0)) ..<
      nextEl s + length (present (heap s a0)) + length (present (heap s a1))]"
  "children (refreshed a0 a1 a2 a3 s) CompleteList =
     [nextEl s + length (present (heap s a0)) + length (present (heap s a1)) ..<
      nextEl s + length (present (heap s a0)) + length (present (heap s a1)) +
        length (present (heap s a2))]"
  "children (refreshed a0 a1 a2 a3 s) OnHoldList =
     [nextEl s + length (present (heap s a0)) + length (present (heap s a1)) +
        length (present (heap s a2)) ..<
      nextEl s + length (present (heap s a0)) + length (present (heap s a1)) +
        length (present (heap s a2)) + length (present (heap s a3))]"
  by (simp_all add: refreshed_def updateSavedColumns_eq length_created Let_def)

lemma refreshed_texts:
  "texts (refreshed a0 a1 a2 a3 s) BacklogList = map text_of (present (heap s a0))"
  "texts (refreshed a0 a1 a2 a3 s) ProgressList = map text_of (present (heap s a1))"
  "texts (refreshed a0 a1 a2 a3 s) CompleteList = map text_of (present (heap s a2))"
  "texts (refreshed a0 a1 a2 a3 s) OnHoldList = map text_of (present (heap s a3))"
  by (simp_all add: refreshed_def updateSavedColumns_eq texts_def Let_def map_place_below
      map_place_here map_textContent_created)

lemma refreshed_settled:
  assumes "strings_or_holes (heap s a0)" "strings_or_holes (heap s a1)"
    "strings_or_holes (heap s a2)" "strings_or_holes (heap s a3)"
    and "length (addItems s) = 4"
  shows "settled (refreshed a0 a1 a2 a3 s)"
  using assms(1-4) [THEN filter_keep_strings] assms(5)
  by (auto simp add: settled_def refreshed_frame refreshed_variables refreshed_column
      refreshed_children list_all_four allocated_def listColumns_def)

lemma refreshed_shown:
  assumes "strings_or_holes (heap s a0)" "strings_or_holes (heap s a1)"
    "strings_or_holes (heap s a2)" "strings_or_holes (heap s a3)"
  shows "shown (refreshed a0 a1 a2 a3 s)"
  using assms [THEN filter_keep_strings]
  by (simp add: shown_def refreshed_column refreshed_texts list_all_four listColumns_def)

lemma refreshed_saved:
  assumes "\<not> write_fails (localStorage s)"
  shows "saved (refreshed a0 a1 a2 a3 s)"
  using assms
  by (simp add: saved_def refreshed_column refreshed_persisted list_all_four)

lemma settledE:
  assumes "settled s"
  obtains a0 a1 a2 a3 where
    "backlogListArray s = Arr a0" "progressListArray s = Arr a1"
    "completeListArray s = Arr a2" "onHoldListArray s = Arr a3"
    "a0 < nextArr s" "a1 < nextArr s" "a2 < nextArr s" "a3 < nextArr s"
    "distinct [a0, a1, a2, a3]"
    "listArrays s = [Arr a0, Arr a1, Arr a2, Arr a3]"
    "updatedOnLoad s" "length (addItems s) = 4"
    "list_all string_slot (heap s a0)" "list_all string_slot (heap s a1)"
    "list_all string_slot (heap s a2)" "list_all string_slot (heap s a3)"
    "length (children s BacklogList) = length (heap s a0)"
    "length (children s ProgressList) = length (heap s a1)"
    "length (children s CompleteList) = length (heap s a2)"
    "length (children s OnHoldList) = length (heap s a3)"
    "distinct (children s BacklogList @ children s ProgressList @ children s CompleteList @
       children s OnHoldList)"
proof -
  from assms obtain a0 a1 a2 a3 where v:
    "backlogListArray s = Arr a0" "progressListArray s = Arr a1"
    "completeListArray s = Arr a2" "onHoldListArray s = Arr a3"
    by (auto simp add: settled_def variables_def allocated_def split: jsvalue.splits)
  show thesis
    using assms v
    by (intro that [of a0 a1 a2 a3])
      (simp_all add: settled_def variables_def allocated_def column_def contents_def
        list_all_four listColumns_def)
qed


lemma dropWhile_rtrim:
  "dropWhile P (rev (dropWhile P (rev xs))) = rev (dropWhile P (rev (dropWhile P xs)))"
  by (induction xs) (auto simp add: dropWhile_append dest: set_dropWhileD)

lemma trim_trim: "trim (trim t) = trim t"
  by (simp add: trim_def dropWhile_rtrim [symmetric])

section \<open>The handlers on a settled page\<close>

lemma strings_are_kept:
  "list_all string_slot xs \<Longrightarrow> filter keep xs = xs \<and> strings_or_holes xs"
  by (induction xs)
    (auto simp add: strings_or_holes_def keep_def string_slot_def split: option.splits jsv.splits)

lemma variables_nth:
  "variables s ! 0 = backlogListArray s" "variables s ! Suc 0 = progressListArray s"
  "variables s ! 2 = completeListArray s" "variables s ! 3 = onHoldListArray s"
  by (simp_all add: variables_def numeral_2_eq_2 numeral_3_eq_3)

text \<open>What a handler leaves when it ends with \<open>updateDOM\<close> on a loaded page.\<close>

lemma updateDOM_columns:
  assumes r: "updatedOnLoad s" "backlogListArray s = Arr a0" "progressListArray s = Arr a1"
    "completeListArray s = Arr a2" "onHoldListArray s = Arr a3"
    "a0 < nextArr s" "a1 < nextArr s" "a2 < nextArr s" "a3 < nextArr s"
    and t: "strings_or_holes (heap s a0)" "strings_or_holes (heap s a1)"
      "strings_or_holes (heap s a2)" "strings_or_holes (heap s a3)"
    and l: "length (addItems s) = 4"
  shows "\<exists>s'. updateDOM s = Inr s' \<and> settled s' \<and> shown s' \<and>
     column s' 0 = Some (filter keep (heap s a0)) \<and>
     column s' 1 = Some (filter keep (heap s a1)) \<and>
     column s' 2 = Some (filter keep (heap s a2)) \<and>
     column s' 3 = Some (filter keep (heap s a3)) \<and>
     (\<not> write_fails (localStorage s) \<longrightarrow> saved s') \<and>
     alerts s' = alerts s \<and> draggedItem s' = draggedItem s \<and> same_flags s s'"
  using updateDOM_ready [OF r] refreshed_settled [OF t l] refreshed_shown [OF t]
    refreshed_column [of a0 a1 a2 a3 s] refreshed_saved [of s a0 a1 a2 a3]
    refreshed_frame(1,2,6,7) [of a0 a1 a2 a3 s]
  by (simp add: same_flags_def)

text \<open>
  A handler that changes the array of one column of a settled page and then calls
  \<open>updateDOM\<close>.
\<close>

lemma updateDOM_after_change:
  assumes s: "settled s" and c: "c < 4" and v: "variables s ! c = Arr a"
    and ys: "strings_or_holes ys"
    and s1: "updatedOnLoad s1" "variables s1 = variables s" "nextArr s1 = nextArr s"
      "heap s1 = (heap s)(a := ys)" "length (addItems s1) = 4"
  shows "\<exists>s'. updateDOM s1 = Inr s' \<and> settled s' \<and> shown s' \<and>
    column s' c = Some (filter keep ys) \<and>
    (\<forall>k < 4. k \<noteq> c \<longrightarrow> column s' k = column s k) \<and>
    (\<not> write_fails (localStorage s1) \<longrightarrow> saved s') \<and>
    alerts s' = alerts s1 \<and> draggedItem s' = draggedItem s1 \<and> same_flags s1 s'"
proof -
  from s obtain a0 a1 a2 a3 where a:
    "backlogListArray s = Arr a0" "progressListArray s = Arr a1"
    "completeListArray s = Arr a2" "onHoldListArray s = Arr a3"
    "a0 < nextArr s" "a1 < nextArr s" "a2 < nextArr s" "a3 < nextArr s"
    "distinct [a0, a1, a2, a3]"
    "listArrays s = [Arr a0, Arr a1, Arr a2, Arr a3]"
    "updatedOnLoad s" "length (addItems s) = 4"
    "list_all string_slot (heap s a0)" "list_all string_slot (heap s a1)"
    "list_all string_slot (heap s a2)" "list_all string_slot (heap s a3)"
    by (rule settledE)
  note k = a(13-16) [THEN strings_are_kept]
  have r1: "updatedOnLoad s1" "backlogListArray s1 = Arr a0" "progressListArray s1 = Arr a1"
    "completeListArray s1 = Arr a2" "onHoldListArray s1 = Arr a3"
    "a0 < nextArr s1" "a1 < nextArr s1" "a2 < nextArr s1" "a3 < nextArr s1"
    using a s1 by (simp_all add: variables_def)
  have t1: "strings_or_holes (heap s1 a0)" "strings_or_holes (heap s1 a1)"
    "strings_or_holes (heap s1 a2)" "strings_or_holes (heap s1 a3)"
    using k ys s1 by simp_all
  obtain s' where u: "updateDOM s1 = Inr s'" "settled s'" "shown s'"
    "column s' 0 = Some (filter keep (heap s1 a0))"
    "column s' 1 = Some (filter keep (heap s1 a1))"
    "column s' 2 = Some (filter keep (heap s1 a2))"
    "column s' 3 = Some (filter keep (heap s1 a3))"
    "\<not> write_fails (localStorage s1) \<longrightarrow> saved s'"
    "alerts s' = alerts s1" "draggedItem s' = draggedItem s1" "same_flags s1 s'"
    using updateDOM_columns [OF r1 t1 s1(5)] by blast
  have "column s' c = Some (filter keep ys)"
    using less_four [OF c] a v u s1
    by (auto simp add: variables_nth)
  moreover have "column s' k = column s k" if "k < 4" "k \<noteq> c" for k
    using that less_four [OF c] less_four [OF that(1)] a v u k s1
    by (auto simp add: column_def variables_nth contents_def)
  ultimately show ?thesis
    using u by auto
qed

lemma addItem_valid:
  assumes s: "settled s" and c: "c < 4" and t: "trim t \<noteq> []" "length (trim t) \<le> 100"
    and xs: "column s c = Some xs"
  shows "\<exists>s'. addItem c t s = Inr s' \<and> settled s' \<and> shown s' \<and>
    column s' c = Some (xs @ [Some (JStr (trim t))]) \<and>
    (\<forall>k < 4. k \<noteq> c \<longrightarrow> column s' k = column s k) \<and>
    (\<not> write_fails (localStorage s) \<longrightarrow> saved s') \<and>
    alerts s' = alerts s \<and> same_flags s s'"
proof -
  from xs obtain a where a: "variables s ! c = Arr a" "heap s a = xs"
    by (auto simp add: column_def contents_def split: jsvalue.splits)
  have l: "listArrays s = variables s" "length (addItems s) = 4" "updatedOnLoad s"
    and x: "list_all string_slot xs"
    using s c xs less_four [OF c] by (auto simp add: settled_def list_all_four)
  define s1 where "s1 = s\<lparr>addItems := (addItems s)[c := t],
     heap := (heap s)(a := xs @ [Some (JStr (trim t))]),
     addItems := ((addItems s)[c := t])[c := []]\<rparr>"
  have 1: "addItem c t s = updateDOM s1"
    using a c t l
    by (simp add: addItem_def hideInputBox_def addToColumn_def nth_opt_def
        validateItemText_def MAX_CHARS_def trim_trim s1_def variables_def Let_def)
  have ys: "list_all string_slot (xs @ [Some (JStr (trim t))])"
    using x by (simp add: string_slot_def)
  show ?thesis
    using updateDOM_after_change [OF s c a(1) strings_are_kept [OF ys, THEN conjunct2], of s1] l
      strings_are_kept [OF ys]
    by (auto simp add: 1 s1_def variables_def same_flags_def)
qed

lemma addItem_rejected:
  assumes s: "settled s" and c: "c < 4" and t: "trim t = [] \<or> 100 < length (trim t)"
  shows "\<exists>s'. addItem c t s = Inr s' \<and> settled s' \<and> shown s' \<and>
    (\<forall>k < 4. column s' k = column s k) \<and>
    (\<not> write_fails (localStorage s) \<longrightarrow> saved s') \<and>
    alerts s' = (if 100 < length (trim t)
                 then alerts s @ [js ''Task text cannot exceed 100 characters''] else alerts s) \<and>
    same_flags s s'"
proof -
  obtain xs where xs: "column s c = Some xs" "list_all string_slot xs"
    using s c less_four [OF c] by (auto simp add: settled_def list_all_four split: option.splits)
  then obtain a where a: "variables s ! c = Arr a" "heap s a = xs"
    by (auto simp add: column_def contents_def split: jsvalue.splits)
  have l: "length (addItems s) = 4" "updatedOnLoad s"
    using s by (auto simp add: settled_def)
  define s1 where "s1 = s\<lparr>alerts := (if 100 < length (trim t)
                 then alerts s @ [js ''Task text cannot exceed 100 characters''] else alerts s),
     addItems := (addItems s)[c := []]\<rparr>"
  have 1: "addItem c t s = updateDOM s1"
    using c t l
    by (auto simp add: addItem_def hideInputBox_def addToColumn_def nth_opt_def
        validateItemText_def MAX_CHARS_def alert_def trim_trim s1_def Let_def)
  have "\<exists>s'. updateDOM s1 = Inr s' \<and> settled s' \<and> shown s' \<and>
    column s' c = Some (filter keep xs) \<and>
    (\<forall>k < 4. k \<noteq> c \<longrightarrow> column s' k = column s k) \<and>
    (\<not> write_fails (localStorage s1) \<longrightarrow> saved s') \<and>
    alerts s' = alerts s1 \<and> draggedItem s' = draggedItem s1 \<and> same_flags s1 s'"
    using a l strings_are_kept [OF xs(2)]
    by (intro updateDOM_after_change [OF s c a(1)]) (auto simp add: s1_def variables_def)
  then obtain s' where u: "updateDOM s1 = Inr s'" "settled s'" "shown s'"
    "column s' c = Some xs" "\<forall>k < 4. k \<noteq> c \<longrightarrow> column s' k = column s k"
    "\<not> write_fails (localStorage s1) \<longrightarrow> saved s'" "alerts s' = alerts s1"
    "same_flags s1 s'"
    using strings_are_kept [OF xs(2)] by auto
  have "\<forall>k < 4. column s' k = column s k"
    using u xs by (metis)
  then show ?thesis
    using 1 u by (auto simp add: s1_def same_flags_def)
qed

lemma filter_keep_delete:
  assumes "list_all string_slot xs" and "i < length xs"
  shows "filter keep (xs[i := None]) = take i xs @ drop (Suc i) xs \<and>
    strings_or_holes (xs[i := None])"
proof -
  have "list_all string_slot (take i xs)" "list_all string_slot (drop (Suc i) xs)"
    using assms(1) by (auto simp add: list_all_iff dest: in_set_takeD in_set_dropD)
  then have "filter keep (take i xs) = take i xs" "filter keep (drop (Suc i) xs) = drop (Suc i) xs"
    using strings_are_kept by blast+
  moreover have "strings_or_holes (xs[i := None])"
    using assms(1) set_update_subset_insert [of xs i None]
    by (auto simp add: strings_or_holes_def list_all_iff)
  ultimately show ?thesis
    using assms(2) by (simp add: upd_conv_take_nth_drop keep_def)
qed

lemma editItem_commits:
  assumes s: "settled s" and c: "c < 4" and xs: "column s c = Some xs" and i: "i < length xs"
    and d: "element_at s c i \<noteq> draggedItem s"
  shows "\<exists>s'. editItem c i t s = Inr s' \<and> settled s' \<and> shown s' \<and>
    column s' c = Some (if t = [] then take i xs @ drop (Suc i) xs else xs[i := Some (JStr t)]) \<and>
    (\<forall>k < 4. k \<noteq> c \<longrightarrow> column s' k = column s k) \<and>
    (\<not> write_fails (localStorage s) \<longrightarrow> saved s') \<and>
    alerts s' = alerts s \<and> same_flags s s'"
proof -
  from xs obtain a where a: "variables s ! c = Arr a" "heap s a = xs"
    by (auto simp add: column_def contents_def split: jsvalue.splits)
  have l: "listArrays s = variables s" "length (addItems s) = 4" "updatedOnLoad s"
    and x: "list_all string_slot xs"
    and n: "length (children s (listColumns ! c)) = length xs"
    using s c xs less_four [OF c] by (auto simp add: settled_def list_all_four)
  define e where "e = children s (listColumns ! c) ! i"
  have e: "element_at s c i = Some e"
    using c i n by (simp add: element_at_def nth_opt_def listColumns_def e_def)
  define ys where "ys = (if t = [] then xs[i := None] else xs[i := Some (JStr t)])"
  define s1 where "s1 = (set_text e t s)\<lparr>heap := (heap s)(a := ys)\<rparr>"
  have 1: "editItem c i t s = updateDOM s1"
    using a c i l e d n
    by (auto simp add: editItem_def updateItem_def nth_opt_def set_text_def s1_def ys_def
        element_at_def delete_slot_def set_slot_def listColumns_def variables_def Let_def)
  have ys: "strings_or_holes ys"
    "filter keep ys = (if t = [] then take i xs @ drop (Suc i) xs else xs[i := Some (JStr t)])"
  proof -
    have "list_all string_slot (xs[i := Some (JStr t)])"
      using x i by (auto simp add: list_all_iff string_slot_def dest: set_update_subset_insert [THEN subsetD])
    from strings_are_kept [OF this] filter_keep_delete [OF x i]
    show "strings_or_holes ys"
      "filter keep ys = (if t = [] then take i xs @ drop (Suc i) xs else xs[i := Some (JStr t)])"
      by (simp_all add: ys_def)
  qed
  have "\<exists>s'. updateDOM s1 = Inr s' \<and> settled s' \<and> shown s' \<and>
    column s' c = Some (filter keep ys) \<and>
    (\<forall>k < 4. k \<noteq> c \<longrightarrow> column s' k = column s k) \<and>
    (\<not> write_fails (localStorage s1) \<longrightarrow> saved s') \<and>
    alerts s' = alerts s1 \<and> draggedItem s' = draggedItem s1 \<and> same_flags s1 s'"
    using l
    by (intro updateDOM_after_change [OF s c a(1) ys(1)])
      (simp_all add: s1_def set_text_def variables_def)
  then show ?thesis
    using ys(2) by (auto simp add: 1 s1_def set_text_def same_flags_def)
qed

lemma editItem_dragged:
  assumes "element_at s c i = Some e" and "draggedItem s = Some e"
  shows "editItem c i t s = Inr (set_text e t s)"
  using assms
  by (auto simp add: editItem_def updateItem_def element_at_def set_text_def Let_def
      split: option.splits)

lemma push_texts_eq:
  "push_texts cs a s =
     s\<lparr>heap := (heap s)(a := heap s a @ map (\<lambda>e. Some (JStr (textContent (elements s e)))) cs)\<rparr>"
  by (induction cs arbitrary: s) simp_all

lemma strings_of_texts:
  "list_all string_slot (map (\<lambda>e. Some (JStr (f e))) cs)"
  by (simp add: list_all_iff string_slot_def)

lemma listColumns_inj:
  "k < 4 \<Longrightarrow> j < 4 \<Longrightarrow> listColumns ! k = listColumns ! j \<longleftrightarrow> k = j"
proof -
  have "distinct listColumns" "length listColumns = 4"
    by (simp_all add: listColumns_def)
  then show "k < 4 \<Longrightarrow> j < 4 \<Longrightarrow> listColumns ! k = listColumns ! j \<longleftrightarrow> k = j"
    by (simp add: nth_eq_iff_index_eq)
qed

lemma moveItem_rebuilds:
  assumes u: "updatedOnLoad s" and l: "length (addItems s) = 4" and b: "target < 4"
  shows "\<exists>s'. moveItem el target s = Inr s' \<and> settled s' \<and> shown s' \<and>
    (\<forall>k < 4. column s' k =
       Some (map (\<lambda>e. Some (JStr (textContent (elements s e))))
              (removeAll el (children s (listColumns ! k)) @ (if k = target then [el] else [])))) \<and>
    (\<not> write_fails (localStorage s) \<longrightarrow> saved s') \<and>
    alerts s' = alerts s \<and> same_flags s s'"
proof -
  define ch where "ch = (\<lambda>n. removeAll el (children s n) @
    (if n = listColumns ! target then [el] else []))"
  define tx where "tx = (\<lambda>n. map (\<lambda>e. Some (JStr (textContent (elements s e)))) (ch n))"
  define s1 where "s1 = s\<lparr>draggedItem := Some el, currentColumn := Some target, children := ch,
      heap := (heap s)(nextArr s := tx BacklogList, Suc (nextArr s) := tx ProgressList,
         Suc (Suc (nextArr s)) := tx CompleteList, Suc (Suc (Suc (nextArr s))) := tx OnHoldList),
      nextArr := Suc (Suc (Suc (Suc (nextArr s)))),
      backlogListArray := Arr (nextArr s), progressListArray := Arr (Suc (nextArr s)),
      completeListArray := Arr (Suc (Suc (nextArr s))),
      onHoldListArray := Arr (Suc (Suc (Suc (nextArr s))))\<rparr>"
  have 1: "moveItem el target s = updateDOM s1"
  proof -
    have "length listColumns = 4" by (simp add: listColumns_def)
    then have "moveItem el target s =
        rebuildArrays (appendChild (listColumns ! target) el
          (s\<lparr>draggedItem := Some el, currentColumn := Some target\<rparr>))"
      using b
      by (simp add: moveItem_def drag_def dragEnter_def then_do_def drop_item_def nth_opt_def)
    also have "\<dots> = updateDOM s1"
      apply (simp add: rebuildArrays_def new_array_def push_texts_eq Let_def appendChild_def
          split del: if_split)
      apply (rule arg_cong [where f = updateDOM])
      apply (rule state.equality)
      apply (simp_all add: s1_def ch_def tx_def)
      done
    finally show ?thesis .
  qed
  have k: "list_all string_slot (tx n)" for n
    unfolding tx_def by (rule strings_of_texts)
  note k' = k [THEN strings_are_kept]
  have "\<exists>s'. updateDOM s1 = Inr s' \<and> settled s' \<and> shown s' \<and>
     column s' 0 = Some (filter keep (heap s1 (nextArr s))) \<and>
     column s' 1 = Some (filter keep (heap s1 (Suc (nextArr s)))) \<and>
     column s' 2 = Some (filter keep (heap s1 (Suc (Suc (nextArr s))))) \<and>
     column s' 3 = Some (filter keep (heap s1 (Suc (Suc (Suc (nextArr s)))))) \<and>
     (\<not> write_fails (localStorage s1) \<longrightarrow> saved s') \<and>
     alerts s' = alerts s1 \<and> draggedItem s' = draggedItem s1 \<and> same_flags s1 s'"
    using u l k'
    by (intro updateDOM_columns) (simp_all add: s1_def)
  then obtain s' where s': "updateDOM s1 = Inr s'" "settled s'" "shown s'"
     "column s' 0 = Some (tx BacklogList)" "column s' 1 = Some (tx ProgressList)"
     "column s' 2 = Some (tx CompleteList)" "column s' 3 = Some (tx OnHoldList)"
     "\<not> write_fails (localStorage s) \<longrightarrow> saved s'" "alerts s' = alerts s"
     "same_flags s s'"
    using k' by (auto simp add: s1_def same_flags_def)
  have "column s' k = Some (map (\<lambda>e. Some (JStr (textContent (elements s e))))
      (removeAll el (children s (listColumns ! k)) @ (if k = target then [el] else [])))"
    if "k < 4" for k
  proof -
    have "column s' k = Some (tx (listColumns ! k))"
      using less_four [OF that] s' by (auto simp add: listColumns_def)
    then show ?thesis
      using listColumns_inj [OF that b] by (simp add: tx_def ch_def)
  qed
  then show ?thesis
    using 1 s' by auto
qed

section \<open>Adding and editing\<close>

lemma settled_example_page: "settled example_page"
  by (simp add: settled_def example_page_def variables_def allocated_def column_def contents_def
      list_all_four listColumns_def string_slot_def empty_storage_def)

lemma shown_example_page: "shown example_page"
  by (simp add: shown_def example_page_def variables_def column_def contents_def
      list_all_four listColumns_def texts_def slot_value_def)

lemma column_example_page:
  "column example_page 0 = Some [Some (JStr (js ''Release'')), Some (JStr (js ''Relax''))]"
  "column example_page 1 = Some [Some (JStr (js ''Work''))]"
  "column example_page 2 = Some []"
  "column example_page 3 = Some []"
  by (simp_all add: example_page_def variables_def column_def contents_def)

text \<open>
  C5. On a settled page, for every column \<open>c\<close> and every text \<open>t\<close> whose trimmed
  length is between 1 and 100, \<open>addItem(c, t)\<close> returns, column \<open>c\<close> is the old
  sequence followed by \<open>trim(t)\<close> (one item longer, the new last item being
  \<open>trim(t)\<close>), and the other three columns are unchanged.
\<close>

theorem addItem_appends:
  assumes "settled s" and "c < 4" and "1 \<le> length (trim t)" and "length (trim t) \<le> 100"
    and "column s c = Some xs"
  shows "\<exists>s'. addItem c t s = Inr s' \<and>
    column s' c = Some (xs @ [Some (JStr (trim t))]) \<and>
    (\<forall>k < 4. k \<noteq> c \<longrightarrow> column s' k = column s k)"
proof -
  have "trim t \<noteq> []" using assms(3) by auto
  from addItem_valid [OF assms(1,2) this assms(4,5)] show ?thesis by blast
qed

lemma trim_Ship: "trim (js ''  Ship v2 '') = js ''Ship v2''"
  by (simp add: trim_def js_def is_space_def)

text \<open>
  The theorem at the example page: adding \<open>"  Ship v2 "\<close> to Progress.
\<close>

theorem addItem_appends_witness:
  "\<exists>s'. addItem 1 (js ''  Ship v2 '') example_page = Inr s' \<and>
    column s' 1 = Some [Some (JStr (js ''Work'')), Some (JStr (js ''Ship v2''))] \<and>
    column s' 0 = column example_page 0 \<and> column s' 2 = column example_page 2 \<and>
    column s' 3 = column example_page 3"
proof -
  have l: "1 \<le> length (trim (js ''  Ship v2 ''))" "length (trim (js ''  Ship v2 '')) \<le> 100"
    unfolding trim_Ship by (simp_all add: js_def)
  have c: "(1::nat) < 4" by simp
  show ?thesis
    using addItem_appends [OF settled_example_page c l column_example_page(2)]
    by (auto simp add: trim_Ship)
qed

text \<open>
  C6. On a settled page, for every column \<open>c\<close>: \<open>addItem(c, t)\<close> with \<open>t\<close> empty after
  trimming returns with every column unchanged and without a warning; with a trimmed
  text of more than 100 characters it returns with every column unchanged and with the
  warning shown to the user.
\<close>

theorem addItem_rejects:
  assumes "settled s" and "c < 4"
  shows "(trim t = [] \<longrightarrow>
           (\<exists>s'. addItem c t s = Inr s' \<and> (\<forall>k < 4. column s' k = column s k) \<and>
              alerts s' = alerts s)) \<and>
         (100 < length (trim t) \<longrightarrow>
           (\<exists>s'. addItem c t s = Inr s' \<and> (\<forall>k < 4. column s' k = column s k) \<and>
              alerts s' = alerts s @ [js ''Task text cannot exceed 100 characters'']))"
proof (intro conjI impI)
  assume "trim t = []"
  then show "\<exists>s'. addItem c t s = Inr s' \<and> (\<forall>k < 4. column s' k = column s k) \<and>
      alerts s' = alerts s"
    using addItem_rejected [OF assms, of t] by auto
next
  assume "100 < length (trim t)"
  then show "\<exists>s'. addItem c t s = Inr s' \<and> (\<forall>k < 4. column s' k = column s k) \<and>
      alerts s' = alerts s @ [js ''Task text cannot exceed 100 characters'']"
    using addItem_rejected [OF assms, of t] by auto
qed

lemma trim_blank: "trim (js ''   '') = []"
  by (simp add: trim_def js_def is_space_def)

lemma trim_long: "trim (replicate 101 0x78) = replicate 101 0x78"
  by (simp add: trim_def is_space_def dropWhile_replicate)

text \<open>
  The theorem at the example page, for a text of three spaces and for a text of 101
  letters.
\<close>

theorem addItem_rejects_witness:
  "(\<exists>s'. addItem 0 (js ''   '') example_page = Inr s' \<and>
      (\<forall>k < 4. column s' k = column example_page k) \<and> alerts s' = []) \<and>
   (\<exists>s'. addItem 0 (replicate 101 0x78) example_page = Inr s' \<and>
      (\<forall>k < 4. column s' k = column example_page k) \<and>
      alerts s' = [js ''Task text cannot exceed 100 characters''])"
proof -
  have c: "(0::nat) < 4" by simp
  have a: "alerts example_page = []" by (simp add: example_page_def)
  show ?thesis
    using addItem_rejects [OF settled_example_page c, of "js ''   ''"]
      addItem_rejects [OF settled_example_page c, of "replicate 101 0x78"]
    by (simp add: trim_blank trim_long a)
qed



text \<open>
  C8. If the element at \<open>(c, i)\<close> is the element being dragged, \<open>editItem(c, i, newText)\<close>
  is skipped for every text: the four sequences, the arrays and the stored values are
  unchanged.
\<close>

theorem editItem_skipped_while_dragged:
  assumes "element_at s c i = Some e" and "draggedItem s = Some e"
  shows "\<exists>s'. editItem c i newText s = Inr s' \<and> board s' = board s \<and>
    (\<forall>k. persisted s' k = persisted s k) \<and>
    heap s' = heap s \<and> variables s' = variables s \<and> listArrays s' = listArrays s \<and>
    localStorage s' = localStorage s"
  using editItem_dragged [OF assms, of newText]
  by (simp add: set_text_def board_def variables_def contents_def persisted_def
      split: jsvalue.splits)

text \<open>
  The theorem at the example page, once its first element has been picked up.
\<close>

theorem editItem_skipped_while_dragged_witness:
  "\<exists>s'. editItem 0 0 (js ''new text'') (drag 0 example_page) = Inr s' \<and>
    board s' = board (drag 0 example_page) \<and>
    (\<forall>k. persisted s' k = persisted (drag 0 example_page) k) \<and>
    heap s' = heap (drag 0 example_page) \<and> variables s' = variables (drag 0 example_page) \<and>
    listArrays s' = listArrays (drag 0 example_page) \<and>
    localStorage s' = localStorage (drag 0 example_page)"
proof -
  have "element_at (drag 0 example_page) 0 0 = Some 0" "draggedItem (drag 0 example_page) = Some 0"
    by (simp_all add: element_at_def nth_opt_def listColumns_def example_page_def drag_def)
  then show ?thesis
    by (rule editItem_skipped_while_dragged)
qed

section \<open>Every operation leaves the page consistent\<close>

lemma settled_column:
  assumes "settled s" and "k < 4"
  shows "\<exists>xs. column s k = Some xs \<and> list_all string_slot xs \<and>
    length (children s (listColumns ! k)) = length xs"
  using assms less_four [OF assms(2)]
  by (auto simp add: settled_def list_all_four split: option.splits)

lemma element_at_Some:
  "element_at s c i = Some e \<longleftrightarrow>
     c < 4 \<and> i < length (children s (listColumns ! c)) \<and> e = children s (listColumns ! c) ! i"
  by (auto simp add: element_at_def nth_opt_def listColumns_def split: option.splits)

lemma perform_applicable:
  assumes s: "settled s" and a: "applicable op s"
  shows "\<exists>s'. perform op s = Inr s' \<and> settled s' \<and> shown s' \<and>
    (\<not> write_fails (localStorage s) \<longrightarrow> saved s') \<and> same_flags s s'"
proof (cases op)
  case (AddItem c t)
  then have c: "c < 4" using a by simp
  obtain xs where xs: "column s c = Some xs"
    using settled_column [OF s c] by blast
  show ?thesis
  proof (cases "trim t = [] \<or> 100 < length (trim t)")
    case True
    then show ?thesis
      using addItem_rejected [OF s c True] AddItem by auto
  next
    case False
    then have "trim t \<noteq> []" "length (trim t) \<le> 100" by auto
    from addItem_valid [OF s c this xs] show ?thesis
      using AddItem by auto
  qed
next
  case (EditItem c i t)
  then obtain e where e: "element_at s c i = Some e" and d: "element_at s c i \<noteq> draggedItem s"
    using a by auto
  then have c: "c < 4" and i: "i < length (children s (listColumns ! c))"
    by (simp_all add: element_at_Some)
  obtain xs where xs: "column s c = Some xs" "length (children s (listColumns ! c)) = length xs"
    using settled_column [OF s c] by blast
  from editItem_commits [OF s c xs(1) _ d, of t] i xs(2) show ?thesis
    using EditItem by auto
next
  case (MoveItem el target)
  then have b: "target < 4" using a by simp
  have "updatedOnLoad s" "length (addItems s) = 4"
    using s by (simp_all add: settled_def)
  from moveItem_rebuilds [OF this b, of el] show ?thesis
    using MoveItem by auto
qed

lemma perform_not_applicable:
  assumes "\<not> applicable op s" and "\<not> skipped op s" and "length (addItems s) = 4"
  shows "perform op s = Inl TypeError"
proof (cases op)
  case (AddItem c t)
  then show ?thesis
    using assms
    by (simp add: addItem_def hideInputBox_def addToColumn_def nth_opt_def)
next
  case (EditItem c i t)
  then show ?thesis
    using assms
    by (auto simp add: editItem_def updateItem_def element_at_def nth_opt_def listColumns_def
        Let_def)
next
  case (MoveItem el target)
  then show ?thesis
    using assms
    by (simp add: moveItem_def dragEnter_def drag_def then_do_def nth_opt_def listColumns_def)
qed

lemma drag_frame:
  "variables (drag el s) = variables s" "contents (drag el s) = contents s"
  "allocated (drag el s) = allocated s" "persisted (drag el s) = persisted s"
  "column (drag el s) = column s" "children (drag el s) = children s"
  "updatedOnLoad (drag el s) = updatedOnLoad s" "listArrays (drag el s) = listArrays s"
  "addItems (drag el s) = addItems s" "localStorage (drag el s) = localStorage s"
  by (auto simp add: fun_eq_iff drag_def variables_def contents_def allocated_def persisted_def
      column_def split: jsvalue.splits)

lemma set_text_frame:
  "variables (set_text e t s) = variables s" "contents (set_text e t s) = contents s"
  "allocated (set_text e t s) = allocated s" "persisted (set_text e t s) = persisted s"
  "column (set_text e t s) = column s" "children (set_text e t s) = children s"
  "updatedOnLoad (set_text e t s) = updatedOnLoad s" "listArrays (set_text e t s) = listArrays s"
  "addItems (set_text e t s) = addItems s" "localStorage (set_text e t s) = localStorage s"
  by (auto simp add: fun_eq_iff set_text_def variables_def contents_def allocated_def
      persisted_def column_def split: jsvalue.splits)

lemma settled_frame:
  "settled (drag el s) = settled s" "saved (drag el s) = saved s"
  "settled (set_text e t s) = settled s" "saved (set_text e t s) = saved s"
  "localStorage (drag el s) = localStorage s" "localStorage (set_text e t s) = localStorage s"
  by (simp_all add: settled_def saved_def drag_frame set_text_frame cong: option.case_cong)

lemma perform_skipped:
  assumes "skipped op s"
  shows "\<exists>c i t. op = EditItem c i t \<and>
    perform op s = Inr (case element_at s c i of None \<Rightarrow> s | Some e \<Rightarrow> set_text e t s)"
proof -
  from assms obtain c i t where op: "op = EditItem c i t"
    and d: "element_at s c i = draggedItem s" and c: "c < 4"
    by (cases op) auto
  have "editItem c i t s = Inr (case element_at s c i of None \<Rightarrow> s | Some e \<Rightarrow> set_text e t s)"
    using d c
    by (auto simp add: editItem_def updateItem_def element_at_def set_text_def Let_def
        nth_opt_def listColumns_def split: option.splits if_splits)
  then show ?thesis
    using op by simp
qed



section \<open>Moving an item\<close>

lemma removeAll_nth:
  assumes "distinct cs" and "i < length cs"
  shows "removeAll (cs ! i) cs = take i cs @ drop (Suc i) cs"
proof -
  have cs: "cs = take i cs @ cs ! i # drop (Suc i) cs"
    using assms(2) by (rule id_take_nth_drop)
  then have "distinct (take i cs @ cs ! i # drop (Suc i) cs)"
    using assms(1) by simp
  then have "cs ! i \<notin> set (take i cs)" "cs ! i \<notin> set (drop (Suc i) cs)"
    by auto
  then have "removeAll (cs ! i) (take i cs @ cs ! i # drop (Suc i) cs) =
      take i cs @ drop (Suc i) cs"
    by simp
  with cs show ?thesis by simp
qed

lemma string_slots_fixed:
  "list_all string_slot xs \<Longrightarrow> map (\<lambda>x. Some (JStr (text_of (slot_value x)))) xs = xs"
  by (induction xs)
    (auto simp add: string_slot_def slot_value_def split: option.splits jsv.splits)

lemma saved_persisted:
  assumes "saved s" and "k < 4" and "column s k = Some xs"
  shows "persisted s k = Some (stringify_array xs)"
  using assms less_four [OF assms(2)] by (auto simp add: saved_def list_all_four)

lemma shown_texts:
  assumes "shown s" and "k < 4" and "column s k = Some xs"
  shows "texts s (listColumns ! k) = map (\<lambda>x. text_of (slot_value x)) xs"
  using assms less_four [OF assms(2)] by (auto simp add: shown_def list_all_four)

lemma settled_children:
  assumes "settled s" and "j < 4" and "k < 4" and "j \<noteq> k"
  shows "distinct (children s (listColumns ! j))"
    and "set (children s (listColumns ! j)) \<inter> set (children s (listColumns ! k)) = {}"
proof -
  have d: "distinct (children s BacklogList @ children s ProgressList @
      children s CompleteList @ children s OnHoldList)"
    using assms(1) by (rule settledE)
  show "distinct (children s (listColumns ! j))"
    using d less_four [OF assms(2)] by (auto simp add: listColumns_def)
  show "set (children s (listColumns ! j)) \<inter> set (children s (listColumns ! k)) = {}"
    using d less_four [OF assms(2)] less_four [OF assms(3)] assms(4)
    by (auto simp add: listColumns_def)
qed

text \<open>
  C1. On a settled page that shows its Board and whose storage accepts writes, for
  every item dragged from column \<open>A\<close> and dropped on another column \<open>B\<close>: \<open>moveItem\<close>
  returns, the item is gone from the sequence of \<open>A\<close> and is at the end of the sequence
  of \<open>B\<close>, which is where \<open>appendChild\<close> puts the element in the list; the two other
  columns are unchanged; each of the four sequences is the texts of the list of its
  column after the drop, in order; and every key holds the JSON text of its sequence.
\<close>

theorem moveItem_moves:
  assumes s: "settled s" and sh: "shown s" and w: "\<not> write_fails (localStorage s)"
    and A: "A < 4" and B: "B < 4" and AB: "A \<noteq> B"
    and xs: "column s A = Some xs" and ys: "column s B = Some ys"
    and i: "i < length xs" and el: "element_at s A i = Some el"
  shows "\<exists>s'. moveItem el B s = Inr s' \<and>
    column s' A = Some (take i xs @ drop (Suc i) xs) \<and>
    column s' B = Some (ys @ [xs ! i]) \<and>
    (\<forall>k < 4. k \<noteq> A \<and> k \<noteq> B \<longrightarrow> column s' k = column s k) \<and>
    (\<forall>k < 4. column s' k =
       Some (map (\<lambda>t. Some (JStr t)) (texts (appendChild (listColumns ! B) el s) (listColumns ! k)))) \<and>
    (\<forall>k < 4. persisted s' k = map_option stringify_array (column s' k))"
proof -
  define T where "T = (\<lambda>e. Some (JStr (textContent (elements s e))))"
  have u: "updatedOnLoad s" "length (addItems s) = 4"
    using s by (simp_all add: settled_def)
  from moveItem_rebuilds [OF u B, of el] w obtain s' where s':
    "moveItem el B s = Inr s'" "saved s'"
    "\<And>k. k < 4 \<Longrightarrow> column s' k =
       Some (map T (removeAll el (children s (listColumns ! k)) @ (if k = B then [el] else [])))"
    unfolding T_def by blast
  have shown_col: "map T (children s (listColumns ! k)) = zs"
    if k4: "k < 4" and ck: "column s k = Some zs" for k zs
  proof -
    obtain zs' where "column s k = Some zs'" "list_all string_slot zs'"
      using settled_column [OF s k4] by blast
    then have "list_all string_slot zs" using ck by simp
    then have z: "map (\<lambda>x. Some (JStr (text_of (slot_value x)))) zs = zs"
      by (rule string_slots_fixed)
    have "map T (children s (listColumns ! k)) =
        map (\<lambda>t. Some (JStr t)) (texts s (listColumns ! k))"
      by (simp add: texts_def T_def)
    also have "\<dots> = map (\<lambda>x. Some (JStr (text_of (slot_value x)))) zs"
      by (simp add: shown_texts [OF sh k4 ck])
    finally show ?thesis using z by simp
  qed
  have elA: "el = children s (listColumns ! A) ! i" "i < length (children s (listColumns ! A))"
    using el by (simp_all add: element_at_Some)
  have dA: "distinct (children s (listColumns ! A))"
    using settled_children(1) [OF s A B AB] .
  have notin: "el \<notin> set (children s (listColumns ! k))" if "k < 4" "k \<noteq> A" for k
  proof -
    have "el \<in> set (children s (listColumns ! A))"
      using elA by simp
    then show ?thesis
      using settled_children(2) [OF s A that(1)] that(2) by blast
  qed
  have colA: "column s' A = Some (take i xs @ drop (Suc i) xs)"
    using s'(3) [OF A] AB removeAll_nth [OF dA elA(2)] shown_col [OF A xs] elA(1)
    by (simp add: take_map [symmetric] drop_map [symmetric])
  have "T el = xs ! i"
    using shown_col [OF A xs] elA i by (metis nth_map)
  then have colB: "column s' B = Some (ys @ [xs ! i])"
    using s'(3) [OF B] notin [OF B] AB shown_col [OF B ys] by simp
  have other: "column s' k = column s k" if k4: "k < 4" and kk: "k \<noteq> A \<and> k \<noteq> B" for k
  proof -
    obtain zs where zs: "column s k = Some zs"
      using settled_column [OF s k4] by blast
    show ?thesis
      using s'(3) [OF k4] notin [OF k4] kk shown_col [OF k4 zs] zs by simp
  qed
  have dom: "column s' k =
      Some (map (\<lambda>t. Some (JStr t)) (texts (appendChild (listColumns ! B) el s) (listColumns ! k)))"
    if "k < 4" for k
    using s'(3) [OF that] listColumns_inj [OF that B]
    by (simp add: texts_def appendChild_def T_def comp_def)
  have per: "persisted s' k = map_option stringify_array (column s' k)" if "k < 4" for k
    using saved_persisted [OF s'(2) that] s'(3) [OF that] by simp
  show ?thesis
    using s'(1) colA colB other dom per by blast
qed

text \<open>
  The theorem at the example page: the first Backlog item is dropped on Progress.
\<close>

theorem moveItem_moves_witness:
  "\<exists>s'. moveItem 0 1 example_page = Inr s' \<and>
    column s' 0 = Some [Some (JStr (js ''Relax''))] \<and>
    column s' 1 = Some [Some (JStr (js ''Work'')), Some (JStr (js ''Release''))] \<and>
    column s' 2 = Some [] \<and> column s' 3 = Some [] \<and>
    persisted s' 0 = Some (stringify_array [Some (JStr (js ''Relax''))]) \<and>
    persisted s' 1 =
      Some (stringify_array [Some (JStr (js ''Work'')), Some (JStr (js ''Release''))])"
proof -
  have w: "\<not> write_fails (localStorage example_page)"
    by (simp add: example_page_def empty_storage_def)
  have n: "(0::nat) < 4" "(1::nat) < 4" "(0::nat) \<noteq> 1"
    "0 < length [Some (JStr (js ''Release'')), Some (JStr (js ''Relax''))]"
    by simp_all
  have e: "element_at example_page 0 0 = Some 0"
    by (simp add: element_at_def nth_opt_def listColumns_def example_page_def)
  obtain s' where s': "moveItem 0 1 example_page = Inr s'"
    "column s' 0 = Some [Some (JStr (js ''Relax''))]"
    "column s' 1 = Some [Some (JStr (js ''Work'')), Some (JStr (js ''Release''))]"
    "\<forall>k < 4. k \<noteq> 0 \<and> k \<noteq> 1 \<longrightarrow> column s' k = column example_page k"
    "\<forall>k < 4. persisted s' k = map_option stringify_array (column s' k)"
    using moveItem_moves [OF settled_example_page shown_example_page w n(1,2,3)
        column_example_page(1,2) n(4) e]
    by auto
  have "column s' 2 = Some []" "column s' 3 = Some []"
    using s'(4) column_example_page(3,4) by simp_all
  moreover have "persisted s' 0 = Some (stringify_array [Some (JStr (js ''Relax''))])"
    "persisted s' 1 = Some (stringify_array [Some (JStr (js ''Work'')), Some (JStr (js ''Release''))])"
    using s'(5) s'(2,3) by simp_all
  ultimately show ?thesis
    using s'(1,2,3) by blast
qed

section \<open>The pages that can be reached\<close>

lemma updateDOM_first:
  assumes "\<not> updatedOnLoad s"
    and "backlogListArray (getSavedColumns s) = Arr a0"
    and "progressListArray (getSavedColumns s) = Arr a1"
    and "completeListArray (getSavedColumns s) = Arr a2"
    and "onHoldListArray (getSavedColumns s) = Arr a3"
    and "a0 < nextArr (getSavedColumns s)" and "a1 < nextArr (getSavedColumns s)"
    and "a2 < nextArr (getSavedColumns s)" and "a3 < nextArr (getSavedColumns s)"
  shows "updateDOM s = Inr (refreshed a0 a1 a2 a3 (getSavedColumns s))"
  using assms
  by (simp add: updateDOM_def then_do_def render_column_Arr filterArray_Arr refreshed_def Let_def)

text \<open>\<open>load()\<close> returns the Board that the storage stands for.\<close>

lemma board_load: "board (load st) = stored_board st"
proof (cases "read_fails st \<or> items st ''backlogItems'' = None \<or> items st ''backlogItems'' = Some []")
  case True
  then show ?thesis
    using load_seed [of st] by (simp add: stored_board_def)
next
  case False
  then obtain v where "\<not> read_fails st" "items st ''backlogItems'' = Some v" "v \<noteq> []"
    by auto
  from column_load [OF this] this show ?thesis
    by (simp add: stored_board_def board_columns keys_def)
qed

lemma getSavedColumns_initial:
  assumes "stored_board st = [Some x0, Some x1, Some x2, Some x3]"
  shows "getSavedColumns (initial st) =
     (initial st)\<lparr>
       backlogListArray := Arr 4, progressListArray := Arr 5,
       completeListArray := Arr 6, onHoldListArray := Arr 7,
       heap := ((\<lambda>a. [])(4 := x0, 5 := x1, 6 := x2, 7 := x3)),
       nextArr := 8\<rparr>"
proof (cases "read_fails st \<or> items st ''backlogItems'' = None \<or> items st ''backlogItems'' = Some []")
  case True
  then have "getSavedColumns (initial st) = default_columns (initial st)"
    by (auto simp add: getSavedColumns_def getItem_def initial_def)
  moreover have "x0 = [Some (JStr (js ''Release the course'')), Some (JStr (js ''Sit back and relax''))]"
    "x1 = [Some (JStr (js ''Work on projects'')), Some (JStr (js ''Listen to music''))]"
    "x2 = [Some (JStr (js ''Being cool'')), Some (JStr (js ''Getting stuff done''))]"
    "x3 = [Some (JStr (js ''Being uncool''))]"
    using assms True by (simp_all add: stored_board_def seed_board_def strings_def)
  ultimately show ?thesis
    by (intro state.equality)
      (simp_all add: initial_def default_columns_def array_literal_def new_array_def Let_def)
next
  case False
  then obtain v where v: "\<not> read_fails st" "items st ''backlogItems'' = Some v" "v \<noteq> []"
    by auto
  then have l: "loaded_column (items st ''backlogItems'') = Some x0"
    "loaded_column (items st ''progressItems'') = Some x1"
    "loaded_column (items st ''completeItems'') = Some x2"
    "loaded_column (items st ''onHoldItems'') = Some x3"
    using assms by (simp_all add: stored_board_def keys_def)
  show ?thesis
    using v l
    by (intro state.equality)
      (auto simp add: getSavedColumns_def getItem_def or_empty_loaded loaded_column_def
        loaded_def [symmetric] initial_def Let_def)
qed

text \<open>
  When the storage stands for four columns of strings, the page that loads over it is
  settled, shows this Board, and has saved it.
\<close>

lemma page_load_settles:
  assumes b: "stored_board st = [Some x0, Some x1, Some x2, Some x3]"
    and x: "list_all string_slot x0" "list_all string_slot x1" "list_all string_slot x2"
      "list_all string_slot x3"
  shows "\<exists>s. page_load st = Inr s \<and> settled s \<and> shown s \<and> board s = stored_board st \<and>
    (\<not> write_fails st \<longrightarrow> saved s) \<and>
    write_fails (localStorage s) = write_fails st \<and> read_fails (localStorage s) = read_fails st \<and>
    children s BacklogList = [0 ..< length x0]"
proof -
  define s0 where "s0 = getSavedColumns (initial st)"
  have h: "heap s0 4 = x0" "heap s0 5 = x1" "heap s0 6 = x2" "heap s0 7 = x3"
    and n: "nextEl s0 = 0" "length (addItems s0) = 4" "localStorage s0 = st"
    unfolding s0_def getSavedColumns_initial [OF b] by (simp_all add: initial_def)
  have 1: "page_load st = Inr (refreshed 4 5 6 7 s0)"
    unfolding page_load_def s0_def
    by (rule updateDOM_first)
      (simp_all add: getSavedColumns_initial [OF b], simp_all add: initial_def)
  note k = x [THEN strings_are_kept]
  have t: "strings_or_holes (heap s0 4)" "strings_or_holes (heap s0 5)"
     "strings_or_holes (heap s0 6)" "strings_or_holes (heap s0 7)"
    using k h by simp_all
  have "board (refreshed 4 5 6 7 s0) = stored_board st"
    using k refreshed_column [of 4 5 6 7 s0] by (simp add: board_columns h b)
  moreover have "children (refreshed 4 5 6 7 s0) BacklogList = [0 ..< length x0]"
    using filter_keep_strings [OF t(1)] k(1) by (simp add: refreshed_children h n)
  ultimately show ?thesis
    using 1 refreshed_settled [OF t n(2)] refreshed_shown [OF t] refreshed_saved [of s0 4 5 6 7] n(3)
    by (simp add: refreshed_frame)
qed

lemma page_load_seed:
  "\<exists>s. page_load empty_storage = Inr s \<and> settled s \<and> shown s \<and> saved s \<and>
     board s = seed_board \<and> element_at s 0 0 = Some 0 \<and> \<not> write_fails (localStorage s) \<and>
     \<not> read_fails (localStorage s)"
proof -
  have "stored_board empty_storage =
      [Some [Some (JStr (js ''Release the course'')), Some (JStr (js ''Sit back and relax''))],
       Some [Some (JStr (js ''Work on projects'')), Some (JStr (js ''Listen to music''))],
       Some [Some (JStr (js ''Being cool'')), Some (JStr (js ''Getting stuff done''))],
       Some [Some (JStr (js ''Being uncool''))]]"
    by (simp add: stored_board_def empty_storage_def seed_board_def strings_def)
  from page_load_settles [OF this] obtain s where s: "page_load empty_storage = Inr s"
    "settled s" "shown s" "board s = stored_board empty_storage"
    "\<not> write_fails empty_storage \<longrightarrow> saved s"
    "write_fails (localStorage s) = write_fails empty_storage"
    "read_fails (localStorage s) = read_fails empty_storage"
    "children s BacklogList =
       [0 ..< length [Some (JStr (js ''Release the course'')), Some (JStr (js ''Sit back and relax''))]]"
    by (auto simp add: string_slot_def)
  have "element_at s 0 0 = Some 0"
    using s(8) by (simp add: element_at_Some listColumns_def)
  moreover have "stored_board empty_storage = seed_board"
    by (simp add: stored_board_def empty_storage_def)
  ultimately show ?thesis
    using s by (auto simp add: empty_storage_def)
qed

text \<open>
  The storage of a settled page that has saved its Board stands for this Board, every
  column being read back as it was written.
\<close>

lemma stored_board_saved:
  assumes s: "settled s" and v: "saved s" and r: "\<not> read_fails (localStorage s)"
  shows "\<exists>x0 x1 x2 x3. stored_board (localStorage s) = [Some x0, Some x1, Some x2, Some x3] \<and>
    list_all string_slot x0 \<and> list_all string_slot x1 \<and> list_all string_slot x2 \<and>
    list_all string_slot x3"
proof -
  have "\<exists>xs. items (localStorage s) (keys ! k) = Some (stringify_array xs) \<and>
      list_all string_slot xs" if "k < 4" for k
    using settled_column [OF s that] saved_persisted [OF v that]
    by (auto simp add: persisted_def)
  from this [of 0] this [of 1] this [of 2] this [of 3]
  obtain x0 x1 x2 x3 where i:
    "items (localStorage s) ''backlogItems'' = Some (stringify_array x0)"
    "items (localStorage s) ''progressItems'' = Some (stringify_array x1)"
    "items (localStorage s) ''completeItems'' = Some (stringify_array x2)"
    "items (localStorage s) ''onHoldItems'' = Some (stringify_array x3)"
    and x: "list_all string_slot x0" "list_all string_slot x1" "list_all string_slot x2"
    "list_all string_slot x3"
    by (auto simp add: keys_def)
  have "stored_board (localStorage s) = [Some x0, Some x1, Some x2, Some x3]"
    using r i x
    by (simp add: stored_board_def keys_def loaded_column_stringify stringify_array_not_empty)
  with x show ?thesis by blast
qed

lemma perform_returns:
  assumes "settled s" and "perform op s = Inr s'"
  shows "applicable op s \<or> (\<exists>c i t. op = EditItem c i t \<and>
    s' = (case element_at s c i of None \<Rightarrow> s | Some e \<Rightarrow> set_text e t s))"
proof (cases "applicable op s")
  case True
  then show ?thesis by simp
next
  case False
  have "length (addItems s) = 4"
    using assms(1) by (simp add: settled_def)
  from perform_not_applicable [OF False _ this] assms(2) have "skipped op s"
    by auto
  from perform_skipped [OF this] assms(2) show ?thesis
    by auto
qed

text \<open>
  Every page that can be reached is settled, has saved its Board, and has a storage that
  works: the properties of the settled pages hold on each of them.
\<close>

lemma reachable_settled:
  assumes "reachable s"
  shows "settled s \<and> saved s \<and> \<not> write_fails (localStorage s) \<and> \<not> read_fails (localStorage s)"
  using assms
proof (induction rule: reachable.induct)
  case (fresh s)
  with page_load_seed show ?case by auto
next
  case (reload s s')
  then have s: "settled s" "saved s" "\<not> write_fails (localStorage s)"
    "\<not> read_fails (localStorage s)"
    by simp_all
  from stored_board_saved [OF s(1,2,4)]
  obtain x0 x1 x2 x3 where "stored_board (localStorage s) = [Some x0, Some x1, Some x2, Some x3]"
    "list_all string_slot x0" "list_all string_slot x1" "list_all string_slot x2"
    "list_all string_slot x3"
    by blast
  from page_load_settles [OF this] reload.hyps(2) s show ?case
    by auto
next
  case (operation s op s')
  then have s: "settled s" "saved s" "\<not> write_fails (localStorage s)"
    "\<not> read_fails (localStorage s)"
    by simp_all
  show ?case
  proof (cases "applicable op s")
    case True
    from perform_applicable [OF s(1) True] operation.hyps(2) s show ?thesis
      by (auto simp add: same_flags_def)
  next
    case False
    with perform_returns [OF s(1) operation.hyps(2)] obtain c i t where
      "s' = (case element_at s c i of None \<Rightarrow> s | Some e \<Rightarrow> set_text e t s)"
      by blast
    then show ?thesis
      using s by (simp add: settled_frame split: option.splits)
  qed
next
  case (pick_up s el)
  then show ?case by (simp add: settled_frame)
next
  case (typing s e t)
  then show ?case by (simp add: settled_frame)
qed

section \<open>Saving and loading again\<close>

text \<open>
  C4. For every page that can be reached, and for every settled page whose storage can
  be written and read, saving the Board and loading it on a fresh page gives the same
  Board.
\<close>

theorem save_then_load:
  assumes "reachable s \<or>
    settled s \<and> \<not> write_fails (localStorage s) \<and> \<not> read_fails (localStorage s)"
  shows "board (load (localStorage (updateSavedColumns s))) = board s"
proof -
  have s: "settled s" and w: "\<not> write_fails (localStorage s)"
    and r: "\<not> read_fails (localStorage s)"
    using assms reachable_settled [of s] by auto
  define st where "st = localStorage (updateSavedColumns s)"
  from s obtain a0 a1 a2 a3 where a:
    "backlogListArray s = Arr a0" "progressListArray s = Arr a1"
    "completeListArray s = Arr a2" "onHoldListArray s = Arr a3"
    and x: "list_all string_slot (heap s a0)" "list_all string_slot (heap s a1)"
    "list_all string_slot (heap s a2)" "list_all string_slot (heap s a3)"
    by (rule settledE)
  have st: "\<not> read_fails st"
    "items st ''backlogItems'' = Some (stringify_array (heap s a0))"
    "items st ''progressItems'' = Some (stringify_array (heap s a1))"
    "items st ''completeItems'' = Some (stringify_array (heap s a2))"
    "items st ''onHoldItems'' = Some (stringify_array (heap s a3))"
    using w r a by (simp_all add: st_def updateSavedColumns_eq JSON_stringify_def)
  note c = column_load [OF st(1,2) stringify_array_not_empty]
  have "board (load st) = [Some (heap s a0), Some (heap s a1), Some (heap s a2), Some (heap s a3)]"
    using c st x by (simp add: board_columns loaded_column_stringify)
  then show ?thesis
    using a by (simp add: st_def board_def variables_def contents_def)
qed

text \<open>
  The theorem at the example page, and at the page that loads over an empty storage.
\<close>

theorem save_then_load_witness:
  "board (load (localStorage (updateSavedColumns example_page))) =
     [strings [''Release'', ''Relax''], strings [''Work''], strings [], strings []] \<and>
   (\<exists>s. page_load empty_storage = Inr s \<and>
      board (load (localStorage (updateSavedColumns s))) = seed_board)"
proof -
  have "\<not> write_fails (localStorage example_page)" "\<not> read_fails (localStorage example_page)"
    by (simp_all add: example_page_def empty_storage_def)
  then have "board (load (localStorage (updateSavedColumns example_page))) = board example_page"
    using settled_example_page by (intro save_then_load) simp
  then have 1: "board (load (localStorage (updateSavedColumns example_page))) =
      [strings [''Release'', ''Relax''], strings [''Work''], strings [], strings []]"
    using column_example_page by (simp add: board_columns strings_def)
  from page_load_seed obtain s where s: "page_load empty_storage = Inr s" "board s = seed_board"
    by blast
  from s(1) have "reachable s" by (rule reachable.fresh)
  then have "board (load (localStorage (updateSavedColumns s))) = board s"
    by (intro save_then_load) simp
  with s 1 show ?thesis by auto
qed

section \<open>Empty items\<close>








end
